theory Spec2Isabelle
  imports Main "HOL-Library.Sublist" "HOL-Library.AList" "HOL-Library.List_Lexorder"
begin

section \<open>Python values\<close>

text \<open>
  A Python \<open>str\<close> is a sequence of Unicode code points; \<open>len\<close> counts code points.
  File contents on disk are byte sequences.  A \<open>pathlib.Path\<close> is the sequence of its
  parts (\<open>Path.parts\<close>): names, after the root \<open>/\<close> (or \<open>//\<close>) when the path is
  absolute.  Paths are resolved in one name space, part by part; the same file reached
  under two spellings (a relative and an absolute path, \<open>..\<close>, links) is not modelled.
  Character names of the Unicode database are ASCII.
\<close>

type_synonym pystr = "nat list"
type_synonym bytes = "nat list"
type_synonym path = "pystr list"

definition ascii :: "string \<Rightarrow> pystr" where
  "ascii s = map of_char s"

text \<open>The exceptions the modelled code can raise.\<close>

datatype error =
    FileNotFoundError
  | NotADirectoryError
  | IsADirectoryError
  | FileExistsError
  | UnicodeDecodeError
  | UnicodeEncodeError
  | LookupError
  | ValueError
  | EOFError
  | OSError

text \<open>The JSON documents \<open>json.dumps\<close> is given by \<open>write_report\<close>.\<close>

datatype json =
    JStr pystr
  | JBool bool
  | JInt int
  | JArr "json list"
  | JObj "(pystr \<times> json) list"

section \<open>The standard library, as a parameter\<close>

text \<open>
  \<open>normalize_original.py\<close> calls into the Python standard library: \<open>unicodedata\<close>
  (NFKC normalisation and character names, both tables of the Unicode Character
  Database), the text layer of file I/O (decoding and encoding under a named encoding,
  with its newline handling), \<open>json\<close> and \<open>str.lower\<close>.  None of this is code of the
  repository, so the model takes it as a parameter: every function below that needs the
  library receives a \<open>pylib\<close>.  Theorems hold for every library; where a claim rests on
  a fact of the Unicode database the fact is a stated hypothesis.

  \<^item> \<open>unicodedata_normalize_NFKC s\<close> is \<open>unicodedata.normalize("NFKC", s)\<close>;
  \<^item> \<open>unicodedata_name c\<close> is \<open>unicodedata.name(chr(c))\<close>, \<open>None\<close> where Python raises
    \<open>ValueError\<close> (no registered name);
  \<^item> \<open>codec_decode enc b\<close> is what reading bytes \<open>b\<close> in text mode under encoding \<open>enc\<close>
    yields, \<open>codec_encode enc s\<close> the bytes that writing \<open>s\<close> in text mode produces;
  \<^item> \<open>json_dumps v\<close> is \<open>json.dumps(v, ensure_ascii=False, indent=2)\<close> and
    \<open>json_loads\<close> is \<open>json.loads\<close> (\<open>None\<close> where it raises);
  \<^item> \<open>str_lower\<close> is \<open>str.lower\<close>.
\<close>

record pylib =
  unicodedata_normalize_NFKC :: "pystr \<Rightarrow> pystr"
  unicodedata_name :: "nat \<Rightarrow> string option"
  codec_decode :: "string \<Rightarrow> bytes \<Rightarrow> error + pystr"
  codec_encode :: "string \<Rightarrow> pystr \<Rightarrow> error + bytes"
  json_dumps :: "json \<Rightarrow> pystr"
  json_loads :: "pystr \<Rightarrow> json option"
  str_lower :: "pystr \<Rightarrow> pystr"

section \<open>The text normaliser\<close>

text \<open>
  \<open>COMPATIBILITY_TRANSLATION = str.maketrans({...})\<close>: a table from code points to
  replacement strings, in the order of the source.
\<close>

definition COMPATIBILITY_TRANSLATION :: "(nat \<times> pystr) list" where
  "COMPATIBILITY_TRANSLATION =
     [(0x3000, [0x20]),
      (0x2014, [0x2D]),
      (0x2013, [0x2D]),
      (0x00A0, [0x20]),
      (0xFF5E, [0x7E]),
      (0xFF0D, [0x2D]),
      (0x2018, [0x27]),
      (0x2019, [0x27]),
      (0x201C, [0x22]),
      (0x201D, [0x22])]"

text \<open>The code points the table replaces (its keys).\<close>

definition table_sources :: "nat set" where
  "table_sources = fst ` set COMPATIBILITY_TRANSLATION"

text \<open>
  \<open>str.translate(table)\<close>: each code point with an entry in the table is replaced by
  the entry's string, every other code point is copied.
\<close>

fun translate :: "(nat \<times> pystr) list \<Rightarrow> pystr \<Rightarrow> pystr" where
  "translate table [] = []"
| "translate table (c # cs) =
     (case map_of table c of None \<Rightarrow> [c] | Some r \<Rightarrow> r) @ translate table cs"

text \<open>Python's \<open>pat in s\<close> on strings: \<open>pat\<close> occurs in \<open>s\<close> as a contiguous block.\<close>

fun str_contains :: "'a list \<Rightarrow> 'a list \<Rightarrow> bool" where
  "str_contains pat [] = (pat = [])"
| "str_contains pat (x # xs) = (prefix pat (x # xs) \<or> str_contains pat xs)"

text \<open>\<open>unicodedata.name(ch, default)\<close>.\<close>

definition name_or :: "pylib \<Rightarrow> nat \<Rightarrow> string \<Rightarrow> string" where
  "name_or L ch dflt = (case unicodedata_name L ch of None \<Rightarrow> dflt | Some n \<Rightarrow> n)"

definition is_variation_selector :: "pylib \<Rightarrow> nat \<Rightarrow> bool" where
  "is_variation_selector L ch = str_contains ''VARIATION SELECTOR'' (name_or L ch '''')"

text \<open>\<open>sep.join(parts)\<close>.\<close>

fun str_join :: "pystr \<Rightarrow> pystr list \<Rightarrow> pystr" where
  "str_join sep [] = []"
| "str_join sep [s] = s"
| "str_join sep (s # t # ts) = s @ sep @ str_join sep (t # ts)"

definition normalise_text :: "pylib \<Rightarrow> pystr \<Rightarrow> pystr" where
  "normalise_text L content =
     (let normalized = unicodedata_normalize_NFKC L content;
          translated = translate COMPATIBILITY_TRANSLATION normalized;
          cleaned = str_join [] [[ch]. ch \<leftarrow> translated, \<not> is_variation_selector L ch]
      in cleaned)"

section \<open>The file system\<close>

text \<open>
  The file system is a tree: a regular file with its bytes, a directory with its entries,
  or a node that is neither (device, socket, FIFO).  Symbolic links and permissions are
  not modelled.
\<close>

datatype node = File bytes | Dir "(pystr \<times> node) list" | Special

fun lookup :: "node \<Rightarrow> path \<Rightarrow> node option" where
  "lookup n [] = Some n"
| "lookup (Dir es) (c # cs) = (case map_of es c of None \<Rightarrow> None | Some m \<Rightarrow> lookup m cs)"
| "lookup (File b) (c # cs) = None"
| "lookup Special (c # cs) = None"

text \<open>\<open>Path.exists()\<close>, \<open>Path.is_dir()\<close>, \<open>Path.is_file()\<close>.\<close>

definition path_exists :: "node \<Rightarrow> path \<Rightarrow> bool" where
  "path_exists fs p = (lookup fs p \<noteq> None)"

definition is_dir :: "node \<Rightarrow> path \<Rightarrow> bool" where
  "is_dir fs p = (case lookup fs p of Some (Dir es) \<Rightarrow> True | _ \<Rightarrow> False)"

definition is_file :: "node \<Rightarrow> path \<Rightarrow> bool" where
  "is_file fs p = (case lookup fs p of Some (File b) \<Rightarrow> True | _ \<Rightarrow> False)"

text \<open>A directory of a file system holds each name once.\<close>

fun wf_node :: "node \<Rightarrow> bool" where
  "wf_node (Dir es) = (distinct (map fst es) \<and> (\<forall>e\<in>set es. wf_node (snd e)))"
| "wf_node (File b) = True"
| "wf_node Special = True"

text \<open>
  What \<open>os.stat\<close> tells about a path: nothing, a regular file (with its bytes, for
  stating what a file holds), a directory, or something else.
\<close>

datatype kind = KFile bytes | KDir | KSpecial

fun kind_of :: "node \<Rightarrow> kind" where
  "kind_of (File b) = KFile b"
| "kind_of (Dir es) = KDir"
| "kind_of Special = KSpecial"

definition stat :: "node \<Rightarrow> path \<Rightarrow> kind option" where
  "stat fs p = map_option kind_of (lookup fs p)"

text \<open>
  \<open>Path.mkdir(parents=True, exist_ok=True)\<close>: every missing directory on the way is
  created; an existing directory is accepted; a target that exists and is no directory
  raises \<open>FileExistsError\<close>, an ancestor that is no directory \<open>NotADirectoryError\<close>.
\<close>

fun mkdir_parents :: "node \<Rightarrow> path \<Rightarrow> error + node" where
  "mkdir_parents (Dir es) [] = Inr (Dir es)"
| "mkdir_parents (File b) [] = Inl FileExistsError"
| "mkdir_parents Special [] = Inl FileExistsError"
| "mkdir_parents (Dir es) (c # cs) =
     (case mkdir_parents (case map_of es c of None \<Rightarrow> Dir [] | Some m \<Rightarrow> m) cs of
        Inl e \<Rightarrow> Inl e
      | Inr m' \<Rightarrow> Inr (Dir (AList.update c m' es)))"
| "mkdir_parents (File b) (c # cs) = Inl NotADirectoryError"
| "mkdir_parents Special (c # cs) = Inl NotADirectoryError"

text \<open>Opening a path for reading and taking all its bytes.\<close>

fun read_bytes :: "node \<Rightarrow> path \<Rightarrow> error + bytes" where
  "read_bytes (File b) [] = Inr b"
| "read_bytes (Dir es) [] = Inl IsADirectoryError"
| "read_bytes Special [] = Inl OSError"
| "read_bytes (Dir es) (c # cs) =
     (case map_of es c of None \<Rightarrow> Inl FileNotFoundError | Some m \<Rightarrow> read_bytes m cs)"
| "read_bytes (File b) (c # cs) = Inl NotADirectoryError"
| "read_bytes Special (c # cs) = Inl NotADirectoryError"

text \<open>
  Opening a path for writing and storing bytes: the file is created in an existing
  directory, or replaced when it exists.
\<close>

fun write_bytes :: "node \<Rightarrow> path \<Rightarrow> bytes \<Rightarrow> error + node" where
  "write_bytes (File old) [] b = Inr (File b)"
| "write_bytes (Dir es) [] b = Inl IsADirectoryError"
| "write_bytes Special [] b = Inl OSError"
| "write_bytes (Dir es) (c # cs) b =
     (case map_of es c of
        None \<Rightarrow> if cs = [] then Inr (Dir (AList.update c (File b) es)) else Inl FileNotFoundError
      | Some m \<Rightarrow>
          (case write_bytes m cs b of
             Inl e \<Rightarrow> Inl e
           | Inr m' \<Rightarrow> Inr (Dir (AList.update c m' es))))"
| "write_bytes (File old) (c # cs) b = Inl NotADirectoryError"
| "write_bytes Special (c # cs) b = Inl NotADirectoryError"

text \<open>\<open>Path.read_text(encoding=enc)\<close>.\<close>

definition read_text :: "pylib \<Rightarrow> node \<Rightarrow> path \<Rightarrow> string \<Rightarrow> error + pystr" where
  "read_text L fs p enc =
     (case read_bytes fs p of Inl e \<Rightarrow> Inl e | Inr b \<Rightarrow> codec_decode L enc b)"

text \<open>
  \<open>Path.write_text(data, encoding=enc)\<close>: the file is opened for writing, which creates
  or empties it, and then the encoded text is written.  When the encoder raises, the
  empty file stays.
\<close>

definition write_text :: "pylib \<Rightarrow> node \<Rightarrow> path \<Rightarrow> pystr \<Rightarrow> string \<Rightarrow> (error + unit) \<times> node" where
  "write_text L fs p s enc =
     (case write_bytes fs p [] of
        Inl e \<Rightarrow> (Inl e, fs)
      | Inr fs0 \<Rightarrow>
          (case codec_encode L enc s of
             Inl e \<Rightarrow> (Inl e, fs0)
           | Inr b \<Rightarrow>
               (case write_bytes fs0 p b of
                  Inl e \<Rightarrow> (Inl e, fs0)
                | Inr fs1 \<Rightarrow> (Inr (), fs1))))"

text \<open>
  The first part of an absolute path is its root.  \<open>Path.parent\<close> drops the last
  part, and is the path itself for a root; \<open>Path.relative_to(base)\<close> raises
  \<open>ValueError\<close> unless \<open>base\<close> is a leading part of the path; \<open>str(path)\<close> is the
  root followed by the names joined with \<open>/\<close>, and \<open>.\<close> for the path without parts.
\<close>

definition is_root :: "pystr \<Rightarrow> bool" where
  "is_root c = (c = ascii ''/'' \<or> c = ascii ''//'')"

definition parent :: "path \<Rightarrow> path" where
  "parent p = (if length p = 1 \<and> is_root (hd p) then p else butlast p)"

definition relative_to :: "path \<Rightarrow> path \<Rightarrow> error + path" where
  "relative_to p base = (if prefix base p then Inr (drop (length base) p) else Inl ValueError)"

definition path_str :: "path \<Rightarrow> pystr" where
  "path_str p =
     (case p of
        [] \<Rightarrow> ascii ''.''
      | c # cs \<Rightarrow> if is_root c then c @ str_join (ascii ''/'') cs else str_join (ascii ''/'') p)"

section \<open>Configuration (\<open>config.py\<close>)\<close>

record NormalizeOriginalConfig =
  source_dir :: path
  output_dir :: path
  report_path :: path
  encoding :: string

text \<open>\<open>PROJECT_ROOT\<close> is where the package is installed: a parameter.\<close>

definition DEFAULT_CONFIG :: "path \<Rightarrow> NormalizeOriginalConfig" where
  "DEFAULT_CONFIG PROJECT_ROOT =
     \<lparr>source_dir = PROJECT_ROOT @ [ascii ''data'', ascii ''original_txt''],
      output_dir = PROJECT_ROOT @ [ascii ''results'', ascii ''normalized_original''],
      report_path =
        PROJECT_ROOT @ [ascii ''results'', ascii ''normalized_original'', ascii ''report.json''],
      encoding = ''utf-8''\<rparr>"

definition ensure_directories :: "NormalizeOriginalConfig \<Rightarrow> node \<Rightarrow> (error + unit) \<times> node" where
  "ensure_directories cfg fs =
     (case mkdir_parents fs (output_dir cfg) of
        Inl e \<Rightarrow> (Inl e, fs)
      | Inr fs1 \<Rightarrow>
          (case mkdir_parents fs1 (parent (report_path cfg)) of
             Inl e \<Rightarrow> (Inl e, fs1)
           | Inr fs2 \<Rightarrow> (Inr (), fs2)))"

section \<open>Discovery, batch processing and the report (\<open>normalize_original.py\<close>)\<close>

text \<open>
  The fields of \<open>RunReport\<close> carry the prefix \<open>report_\<close> where the source's name is
  already a field of the configuration or of the arguments.
\<close>

record FileReport =
  path :: pystr
  changed :: bool
  characters_before :: nat
  characters_after :: nat

record RunReport =
  report_source_dir :: pystr
  report_output_dir :: pystr
  report_dry_run :: bool
  files :: "FileReport list"

text \<open>
  \<open>source_dir.rglob("*.txt")\<close>: every entry below the directory whose name ends in
  \<open>.txt\<close>, directories included; the subtree is walked through every directory.
\<close>

definition fnmatch_txt :: "pystr \<Rightarrow> bool" where
  "fnmatch_txt nm = suffix (ascii ''.txt'') nm"

fun rglob_node :: "path \<Rightarrow> node \<Rightarrow> path list" where
  "rglob_node pre (Dir es) =
     concat (map (\<lambda>e. (if fnmatch_txt (fst e) then [pre @ [fst e]] else [])
                        @ rglob_node (pre @ [fst e]) (snd e)) es)"
| "rglob_node pre (File b) = []"
| "rglob_node pre Special = []"

definition rglob :: "node \<Rightarrow> path \<Rightarrow> path list" where
  "rglob fs d = (case lookup fs d of None \<Rightarrow> [] | Some n \<Rightarrow> rglob_node d n)"

text \<open>\<open>sorted\<close> orders \<open>Path\<close> objects by their components, each compared as a string.\<close>

definition gather_files :: "node \<Rightarrow> path \<Rightarrow> path list" where
  "gather_files fs source = sort [p \<leftarrow> rglob fs source. is_file fs p]"

text \<open>
  Where the text of an input file below the source directory goes: the output directory
  joined with the file's path relative to the source directory.
\<close>

definition output_path_of :: "NormalizeOriginalConfig \<Rightarrow> path \<Rightarrow> path" where
  "output_path_of cfg p = output_dir cfg @ drop (length (source_dir cfg)) p"

text \<open>One round of the loop of \<open>process_files\<close>.\<close>

definition process_file ::
  "pylib \<Rightarrow> NormalizeOriginalConfig \<Rightarrow> bool \<Rightarrow> path \<Rightarrow> node \<Rightarrow> (error + FileReport) \<times> node" where
  "process_file L cfg dry p fs =
     (case read_text L fs p (encoding cfg) of
        Inl e \<Rightarrow> (Inl e, fs)
      | Inr original \<Rightarrow>
          (let normalized = normalise_text L original;
               chg = (normalized \<noteq> original)
           in case relative_to p (source_dir cfg) of
                Inl e \<Rightarrow> (Inl e, fs)
              | Inr rel \<Rightarrow>
                  (let r = \<lparr>path = path_str rel, changed = chg,
                            characters_before = length original,
                            characters_after = length normalized\<rparr>
                   in if \<not> dry then
                        (let output_path = output_dir cfg @ rel
                         in case mkdir_parents fs (parent output_path) of
                              Inl e \<Rightarrow> (Inl e, fs)
                            | Inr fs1 \<Rightarrow>
                                (case write_text L fs1 output_path normalized (encoding cfg) of
                                   (Inl e, fs2) \<Rightarrow> (Inl e, fs2)
                                 | (Inr u, fs2) \<Rightarrow> (Inr r, fs2)))
                      else (Inr r, fs))))"

fun process_files_loop ::
  "pylib \<Rightarrow> NormalizeOriginalConfig \<Rightarrow> bool \<Rightarrow> path list \<Rightarrow> FileReport list \<Rightarrow> node
     \<Rightarrow> (error + FileReport list) \<times> node" where
  "process_files_loop L cfg dry [] reports fs = (Inr reports, fs)"
| "process_files_loop L cfg dry (p # ps) reports fs =
     (case process_file L cfg dry p fs of
        (Inl e, fs') \<Rightarrow> (Inl e, fs')
      | (Inr r, fs') \<Rightarrow> process_files_loop L cfg dry ps (reports @ [r]) fs')"

definition process_files ::
  "pylib \<Rightarrow> path list \<Rightarrow> NormalizeOriginalConfig \<Rightarrow> bool \<Rightarrow> node \<Rightarrow> (error + RunReport) \<times> node" where
  "process_files L fls cfg dry fs =
     (case process_files_loop L cfg dry fls [] fs of
        (Inl e, fs') \<Rightarrow> (Inl e, fs')
      | (Inr reports, fs') \<Rightarrow>
          (Inr \<lparr>report_source_dir = path_str (source_dir cfg),
                report_output_dir = path_str (output_dir cfg),
                report_dry_run = dry,
                files = reports\<rparr>, fs'))"

text \<open>\<open>dataclasses.asdict\<close> of a \<open>FileReport\<close>, and the payload of \<open>write_report\<close>.\<close>

definition asdict :: "FileReport \<Rightarrow> json" where
  "asdict item =
     JObj [(ascii ''path'', JStr (path item)),
           (ascii ''changed'', JBool (changed item)),
           (ascii ''characters_before'', JInt (int (characters_before item))),
           (ascii ''characters_after'', JInt (int (characters_after item)))]"

definition payload :: "RunReport \<Rightarrow> json" where
  "payload report =
     JObj [(ascii ''source_dir'', JStr (report_source_dir report)),
           (ascii ''output_dir'', JStr (report_output_dir report)),
           (ascii ''dry_run'', JBool (report_dry_run report)),
           (ascii ''files'', JArr (map asdict (files report)))]"

text \<open>A field of a parsed JSON object (\<open>doc[key]\<close>).\<close>

definition json_field :: "json \<Rightarrow> pystr \<Rightarrow> json option" where
  "json_field v k = (case v of JObj ms \<Rightarrow> map_of ms k | _ \<Rightarrow> None)"

definition write_report ::
  "pylib \<Rightarrow> RunReport \<Rightarrow> NormalizeOriginalConfig \<Rightarrow> node \<Rightarrow> (error + unit) \<times> node" where
  "write_report L report cfg fs =
     write_text L fs (report_path cfg) (json_dumps L (payload report)) (encoding cfg)"

section \<open>The command line (\<open>main\<close>)\<close>

text \<open>
  The process sees the file system, the lines waiting on standard input and what it has
  printed.  The printed texts are fixed messages; they are named, with the values they
  show, instead of spelled out.
\<close>

datatype question = AskRunNow | AskDryRun

datatype msg =
    HEADER
  | STEP_TITLE
  | Step10
  | Prompt question bool
  | Cancelled
  | InfoNonInteractive
  | ErrorSourceDir path
  | HintPrepareSource
  | WarnNoFiles path
  | DoneDryRun path
  | DoneWritten path
  | InfoReport path

record world =
  disk :: node
  stdin :: "pystr list"
  stdout :: "msg list"

text \<open>
  The parsed arguments (\<open>argparse.Namespace\<close>); \<open>args.output\<close> is the field
  \<open>output_arg\<close>.
\<close>

record args =
  dry_run :: bool
  interactive :: bool
  source :: "path option"
  output_arg :: "path option"

definition print :: "msg \<Rightarrow> world \<Rightarrow> world" where
  "print m w = w\<lparr>stdout := stdout w @ [m]\<rparr>"

text \<open>\<open>input(prompt)\<close> prints the prompt and takes one line; at end of input it raises.\<close>

definition input :: "msg \<Rightarrow> world \<Rightarrow> (error + pystr) \<times> world" where
  "input prompt w =
     (case stdin (print prompt w) of
        [] \<Rightarrow> (Inl EOFError, print prompt w)
      | l # ls \<Rightarrow> (Inr l, (print prompt w)\<lparr>stdin := ls\<rparr>))"

text \<open>\<open>str.strip()\<close> removes the white space of Unicode at both ends.\<close>

definition whitespace :: "nat list" where
  "whitespace =
     [0x09, 0x0A, 0x0B, 0x0C, 0x0D, 0x1C, 0x1D, 0x1E, 0x1F, 0x20, 0x85, 0xA0, 0x1680,
      0x2000, 0x2001, 0x2002, 0x2003, 0x2004, 0x2005, 0x2006, 0x2007, 0x2008, 0x2009,
      0x200A, 0x2028, 0x2029, 0x202F, 0x205F, 0x3000]"

definition str_strip :: "pystr \<Rightarrow> pystr" where
  "str_strip s =
     rev (dropWhile (\<lambda>c. c \<in> set whitespace) (rev (dropWhile (\<lambda>c. c \<in> set whitespace) s)))"

definition prompt_yes_no :: "pylib \<Rightarrow> question \<Rightarrow> bool \<Rightarrow> world \<Rightarrow> (error + bool) \<times> world" where
  "prompt_yes_no L prompt dflt w =
     (case input (Prompt prompt dflt) w of
        (Inl e, w') \<Rightarrow> (Inl e, w')
      | (Inr answer, w') \<Rightarrow>
          (let normalized = str_lower L (str_strip answer)
           in if normalized = [] then (Inr dflt, w')
              else (Inr (normalized \<in> {ascii ''y'', ascii ''yes''}), w')))"

text \<open>Lines 168 to 182 of \<open>main\<close>: the configuration from the arguments.\<close>

definition main_config :: "path \<Rightarrow> args \<Rightarrow> NormalizeOriginalConfig" where
  "main_config PROJECT_ROOT a =
     (case source a of
        Some src \<Rightarrow>
          \<lparr>source_dir = src,
           output_dir = (case output_arg a of Some out \<Rightarrow> out
                         | None \<Rightarrow> output_dir (DEFAULT_CONFIG PROJECT_ROOT)),
           report_path = (case output_arg a of Some out \<Rightarrow> out @ [ascii ''report.json'']
                          | None \<Rightarrow> report_path (DEFAULT_CONFIG PROJECT_ROOT)),
           encoding = encoding (DEFAULT_CONFIG PROJECT_ROOT)\<rparr>
      | None \<Rightarrow>
          (case output_arg a of
             Some out \<Rightarrow>
               \<lparr>source_dir = source_dir (DEFAULT_CONFIG PROJECT_ROOT),
                output_dir = out,
                report_path = out @ [ascii ''report.json''],
                encoding = encoding (DEFAULT_CONFIG PROJECT_ROOT)\<rparr>
           | None \<Rightarrow> DEFAULT_CONFIG PROJECT_ROOT))"

text \<open>
  Lines 190 to 198 of \<open>main\<close>: the prompts.  The result is \<open>None\<close> when the run is
  cancelled and the dry-run flag to go on with otherwise.
\<close>

definition main_prompts :: "pylib \<Rightarrow> args \<Rightarrow> world \<Rightarrow> (error + bool option) \<times> world" where
  "main_prompts L a w =
     (if interactive a then
        (case prompt_yes_no L AskRunNow True w of
           (Inl e, w1) \<Rightarrow> (Inl e, w1)
         | (Inr run_now, w1) \<Rightarrow>
             if \<not> run_now then (Inr None, print Cancelled w1)
             else (case prompt_yes_no L AskDryRun (dry_run a) w1 of
                     (Inl e, w2) \<Rightarrow> (Inl e, w2)
                   | (Inr d, w2) \<Rightarrow> (Inr (Some d), w2)))
      else (Inr (Some (dry_run a)), print InfoNonInteractive w))"

text \<open>Lines 200 to 219 of \<open>main\<close>: the check of the source directory and the batch.\<close>

definition main_run :: "pylib \<Rightarrow> NormalizeOriginalConfig \<Rightarrow> bool \<Rightarrow> world \<Rightarrow> (error + int) \<times> world" where
  "main_run L cfg dry w =
     (if \<not> path_exists (disk w) (source_dir cfg) \<or> \<not> is_dir (disk w) (source_dir cfg) then
        (Inr 1, print HintPrepareSource (print (ErrorSourceDir (source_dir cfg)) w))
      else
        (let fls = gather_files (disk w) (source_dir cfg)
         in if fls = [] then (Inr 0, print (WarnNoFiles (source_dir cfg)) w)
            else
              (case process_files L fls cfg dry (disk w) of
                 (Inl e, fs1) \<Rightarrow> (Inl e, w\<lparr>disk := fs1\<rparr>)
               | (Inr report, fs1) \<Rightarrow>
                   (case write_report L report cfg fs1 of
                      (Inl e, fs2) \<Rightarrow> (Inl e, w\<lparr>disk := fs2\<rparr>)
                    | (Inr u, fs2) \<Rightarrow>
                        (Inr 0,
                         if dry then print (DoneDryRun (report_path cfg)) (w\<lparr>disk := fs2\<rparr>)
                         else print (InfoReport (report_path cfg))
                                (print (DoneWritten (output_dir cfg)) (w\<lparr>disk := fs2\<rparr>)))))))"

definition main :: "pylib \<Rightarrow> path \<Rightarrow> args \<Rightarrow> world \<Rightarrow> (error + int) \<times> world" where
  "main L PROJECT_ROOT a w =
     (let cfg = main_config PROJECT_ROOT a
      in case ensure_directories cfg (disk w) of
           (Inl e, fs1) \<Rightarrow> (Inl e, w\<lparr>disk := fs1\<rparr>)
         | (Inr u, fs1) \<Rightarrow>
             (let w1 = print Step10 (print STEP_TITLE (print HEADER (w\<lparr>disk := fs1\<rparr>)))
              in case main_prompts L a w1 of
                   (Inl e, w2) \<Rightarrow> (Inl e, w2)
                 | (Inr None, w2) \<Rightarrow> (Inr 0, w2)
                 | (Inr (Some dry), w2) \<Rightarrow> main_run L cfg dry w2))"

section \<open>An excerpt of the Unicode Character Database\<close>

text \<open>
  For evaluating the normaliser on concrete strings the library is instantiated with the
  Unicode normalisation algorithm (UAX 15: compatibility decomposition, canonical
  ordering, canonical composition) over an excerpt of the database's tables.  The excerpt
  is closed: on strings over the code points of \<open>ucd_names\<close> it computes what
  \<open>unicodedata\<close> computes.
\<close>

definition ucd_decomposition :: "(nat \<times> nat list) list" where
  "ucd_decomposition =
     [(0x00A0, [0x20]),
      (0x00E9, [0x65, 0x301]),
      (0x3000, [0x20]),
      (0xFF0D, [0x2D]),
      (0xFF5E, [0x7E])]"

definition ucd_combining :: "(nat \<times> nat) list" where
  "ucd_combining = [(0x301, 230)]"

definition ucd_composition :: "((nat \<times> nat) \<times> nat) list" where
  "ucd_composition = [((0x65, 0x301), 0xE9)]"

definition ucd_names :: "(nat \<times> string) list" where
  "ucd_names =
     [(0x20, ''SPACE''),
      (0x22, ''QUOTATION MARK''),
      (0x27, ''APOSTROPHE''),
      (0x2D, ''HYPHEN-MINUS''),
      (0x65, ''LATIN SMALL LETTER E''),
      (0x78, ''LATIN SMALL LETTER X''),
      (0x7E, ''TILDE''),
      (0xA0, ''NO-BREAK SPACE''),
      (0xE9, ''LATIN SMALL LETTER E WITH ACUTE''),
      (0x301, ''COMBINING ACUTE ACCENT''),
      (0x2013, ''EN DASH''),
      (0x2014, ''EM DASH''),
      (0x2018, ''LEFT SINGLE QUOTATION MARK''),
      (0x2019, ''RIGHT SINGLE QUOTATION MARK''),
      (0x201C, ''LEFT DOUBLE QUOTATION MARK''),
      (0x201D, ''RIGHT DOUBLE QUOTATION MARK''),
      (0x2764, ''HEAVY BLACK HEART''),
      (0x3000, ''IDEOGRAPHIC SPACE''),
      (0xFE0F, ''VARIATION SELECTOR-16''),
      (0xFF0D, ''FULLWIDTH HYPHEN-MINUS''),
      (0xFF5E, ''FULLWIDTH TILDE'')]"

definition combining_class :: "nat \<Rightarrow> nat" where
  "combining_class c = (case map_of ucd_combining c of None \<Rightarrow> 0 | Some k \<Rightarrow> k)"

definition nfkc_decompose :: "pystr \<Rightarrow> pystr" where
  "nfkc_decompose s =
     concat (map (\<lambda>c. case map_of ucd_decomposition c of None \<Rightarrow> [c] | Some d \<Rightarrow> d) s)"

text \<open>
  Canonical ordering: a combining mark moves in front of the marks before it that have a
  greater combining class.  The accumulator holds the text so far in reverse.
\<close>

fun insert_mark :: "nat \<Rightarrow> pystr \<Rightarrow> pystr" where
  "insert_mark c [] = [c]"
| "insert_mark c (r # rs) =
     (if combining_class c < combining_class r then r # insert_mark c rs else c # r # rs)"

definition nfkc_reorder :: "pystr \<Rightarrow> pystr" where
  "nfkc_reorder s =
     rev (foldl (\<lambda>acc c. if combining_class c = 0 then c # acc else insert_mark c acc) [] s)"

text \<open>
  Canonical composition: \<open>done\<close> is the finished text, \<open>st\<close> the last starter, \<open>aft\<close>
  the marks kept after it (in reverse) and \<open>lastc\<close> the combining class of the last
  character kept.
\<close>

fun nfkc_compose :: "pystr \<Rightarrow> nat \<Rightarrow> pystr \<Rightarrow> nat \<Rightarrow> pystr \<Rightarrow> pystr" where
  "nfkc_compose dn st aft lastc [] = dn @ st # rev aft"
| "nfkc_compose dn st aft lastc (c # cs) =
     (case (if lastc < combining_class c \<or> lastc = 0
            then map_of ucd_composition (st, c) else None) of
        Some k \<Rightarrow> nfkc_compose dn k aft lastc cs
      | None \<Rightarrow>
          if combining_class c = 0
          then nfkc_compose (dn @ st # rev aft) c [] 0 cs
          else nfkc_compose dn st (c # aft) (combining_class c) cs)"

definition nfkc :: "pystr \<Rightarrow> pystr" where
  "nfkc s =
     (case nfkc_reorder (nfkc_decompose s) of
        [] \<Rightarrow> []
      | c # cs \<Rightarrow> nfkc_compose [] c [] (if combining_class c = 0 then 0 else 256) cs)"

definition unicodedata_excerpt_name :: "nat \<Rightarrow> string option" where
  "unicodedata_excerpt_name c = map_of ucd_names c"

section \<open>Excerpts of the codecs, of \<open>json\<close> and of \<open>str.lower\<close>\<close>

text \<open>
  UTF-8 as Python's strict codec decodes it, one byte at a time: \<open>k\<close> continuation bytes
  are still expected for a code point whose value so far is \<open>acc\<close> and which must not
  be below \<open>lo\<close> (no overlong forms); surrogates and values beyond U+10FFFF are
  rejected.
\<close>

definition continuation :: "nat \<Rightarrow> bool" where
  "continuation b = (0x80 \<le> b \<and> b < 0xC0)"

definition cons_result :: "'a \<Rightarrow> error + 'a list \<Rightarrow> error + 'a list" where
  "cons_result x r = (case r of Inl e \<Rightarrow> Inl e | Inr xs \<Rightarrow> Inr (x # xs))"

primrec utf8_decode_from :: "nat \<Rightarrow> nat \<Rightarrow> nat \<Rightarrow> bytes \<Rightarrow> error + pystr" where
  "utf8_decode_from k acc lo [] = (if k = 0 then Inr [] else Inl UnicodeDecodeError)"
| "utf8_decode_from k acc lo (b # bs) =
     (if k = 0 then
        (if b < 0x80 then cons_result b (utf8_decode_from 0 0 0 bs)
         else if 0xC2 \<le> b \<and> b < 0xE0 then utf8_decode_from 1 (b - 0xC0) 0x80 bs
         else if 0xE0 \<le> b \<and> b < 0xF0 then utf8_decode_from 2 (b - 0xE0) 0x800 bs
         else if 0xF0 \<le> b \<and> b < 0xF5 then utf8_decode_from 3 (b - 0xF0) 0x10000 bs
         else Inl UnicodeDecodeError)
      else if continuation b then
        (let c = acc * 64 + (b - 0x80)
         in if k = 1 then
              (if lo \<le> c \<and> c < 0x110000 \<and> \<not> (0xD800 \<le> c \<and> c < 0xE000)
               then cons_result c (utf8_decode_from 0 0 0 bs)
               else Inl UnicodeDecodeError)
            else utf8_decode_from (k - 1) c lo bs)
      else Inl UnicodeDecodeError)"

text \<open>Reading in text mode turns CR LF and a lone CR into LF.\<close>

primrec universal_newlines :: "bool \<Rightarrow> pystr \<Rightarrow> pystr" where
  "universal_newlines after_cr [] = []"
| "universal_newlines after_cr (c # cs) =
     (if c = 0x0D then 0x0A # universal_newlines True cs
      else if c = 0x0A \<and> after_cr then universal_newlines False cs
      else c # universal_newlines False cs)"



definition utf8_encode_char :: "nat \<Rightarrow> error + bytes" where
  "utf8_encode_char c =
     (if c < 0x80 then Inr [c]
      else if c < 0x800 then Inr [0xC0 + c div 64, 0x80 + c mod 64]
      else if c < 0x10000 then
        (if 0xD800 \<le> c \<and> c < 0xE000 then Inl UnicodeEncodeError
         else Inr [0xE0 + c div 4096, 0x80 + c div 64 mod 64, 0x80 + c mod 64])
      else if c < 0x110000 then
        Inr [0xF0 + c div 262144, 0x80 + c div 4096 mod 64, 0x80 + c div 64 mod 64,
             0x80 + c mod 64]
      else Inl UnicodeEncodeError)"

primrec utf8_encode :: "pystr \<Rightarrow> error + bytes" where
  "utf8_encode [] = Inr []"
| "utf8_encode (c # cs) =
     (case utf8_encode_char c of
        Inl e \<Rightarrow> Inl e
      | Inr b \<Rightarrow> (case utf8_encode cs of Inl e \<Rightarrow> Inl e | Inr bs \<Rightarrow> Inr (b @ bs)))"

text \<open>
  The excerpt knows the encoding \<open>utf-8\<close> under this one name; writing in text mode
  leaves line ends as they are (POSIX).
\<close>

definition excerpt_decode :: "string \<Rightarrow> bytes \<Rightarrow> error + pystr" where
  "excerpt_decode enc b =
     (if enc = ''utf-8'' then
        (case utf8_decode_from 0 0 0 b of Inl e \<Rightarrow> Inl e | Inr s \<Rightarrow> Inr (universal_newlines False s))
      else Inl LookupError)"

definition excerpt_encode :: "string \<Rightarrow> pystr \<Rightarrow> error + bytes" where
  "excerpt_encode enc s = (if enc = ''utf-8'' then utf8_encode s else Inl LookupError)"

text \<open>
  \<open>json.dumps(v, ensure_ascii=False, indent=2)\<close> on the documents of type \<open>json\<close>.
\<close>

definition hexdigit :: "nat \<Rightarrow> nat" where
  "hexdigit n = (if n < 10 then 0x30 + n else 0x57 + n)"

definition json_escape :: "nat \<Rightarrow> pystr" where
  "json_escape c =
     (if c = 0x22 then [0x5C, 0x22]
      else if c = 0x5C then [0x5C, 0x5C]
      else if c = 0x0A then [0x5C, 0x6E]
      else if c = 0x0D then [0x5C, 0x72]
      else if c = 0x09 then [0x5C, 0x74]
      else if c = 0x08 then [0x5C, 0x62]
      else if c = 0x0C then [0x5C, 0x66]
      else if c < 0x20 then [0x5C, 0x75, 0x30, 0x30, hexdigit (c div 16), hexdigit (c mod 16)]
      else [c])"

definition json_quote :: "pystr \<Rightarrow> pystr" where
  "json_quote s = 0x22 # concat (map json_escape s) @ [0x22]"

fun decimal :: "nat \<Rightarrow> pystr" where
  "decimal n = (if n < 10 then [0x30 + n] else decimal (n div 10) @ [0x30 + n mod 10])"

primrec json_indent :: "nat \<Rightarrow> pystr" where
  "json_indent 0 = []"
| "json_indent (Suc lvl) = 0x20 # 0x20 # json_indent lvl"

definition json_newline :: "nat \<Rightarrow> pystr" where
  "json_newline lvl = 0x0A # json_indent lvl"

fun json_encode :: "nat \<Rightarrow> json \<Rightarrow> pystr" where
  "json_encode lvl (JStr s) = json_quote s"
| "json_encode lvl (JBool b) = (if b then ascii ''true'' else ascii ''false'')"
| "json_encode lvl (JInt i) = (if i < 0 then 0x2D # decimal (nat (- i)) else decimal (nat i))"
| "json_encode lvl (JArr vs) =
     (if vs = [] then ascii ''[]''
      else ascii ''['' @ json_newline (Suc lvl)
           @ str_join (ascii '','' @ json_newline (Suc lvl)) (map (json_encode (Suc lvl)) vs)
           @ json_newline lvl @ ascii '']'')"
| "json_encode lvl (JObj ms) =
     (if ms = [] then ascii ''{}''
      else ascii ''{'' @ json_newline (Suc lvl)
           @ str_join (ascii '','' @ json_newline (Suc lvl))
               (map (\<lambda>m. json_quote (fst m) @ ascii '': '' @ json_encode (Suc lvl) (snd m)) ms)
           @ json_newline lvl @ ascii ''}'')"

text \<open>
  \<open>json.loads\<close> on documents of objects, arrays, strings, integers and booleans; the
  recursion is bounded by the length of the text.
\<close>

definition skip_ws :: "pystr \<Rightarrow> pystr" where
  "skip_ws s = dropWhile (\<lambda>c. c = 0x20 \<or> c = 0x09 \<or> c = 0x0A \<or> c = 0x0D) s"

definition unescape :: "nat \<Rightarrow> nat option" where
  "unescape e =
     (if e = 0x22 then Some 0x22
      else if e = 0x5C then Some 0x5C
      else if e = 0x2F then Some 0x2F
      else if e = 0x62 then Some 0x08
      else if e = 0x66 then Some 0x0C
      else if e = 0x6E then Some 0x0A
      else if e = 0x72 then Some 0x0D
      else if e = 0x74 then Some 0x09
      else None)"

definition hexval :: "nat \<Rightarrow> nat option" where
  "hexval c =
     (if 0x30 \<le> c \<and> c \<le> 0x39 then Some (c - 0x30)
      else if 0x61 \<le> c \<and> c \<le> 0x66 then Some (c - 0x57)
      else if 0x41 \<le> c \<and> c \<le> 0x46 then Some (c - 0x37)
      else None)"

text \<open>
  The body of a string after its opening quote.  \<open>esc\<close> counts what an escape still
  needs: 0 outside an escape, 5 after the backslash, 4 to 1 for the hexadecimal digits
  of \<open>\u\<close>, whose value so far is \<open>acc\<close>.
\<close>

primrec parse_chars :: "nat \<Rightarrow> nat \<Rightarrow> pystr \<Rightarrow> pystr \<Rightarrow> (pystr \<times> pystr) option" where
  "parse_chars esc acc out [] = None"
| "parse_chars esc acc out (c # cs) =
     (if esc = 0 then
        (if c = 0x22 then Some (rev out, cs)
         else if c = 0x5C then parse_chars 5 0 out cs
         else if c < 0x20 then None
         else parse_chars 0 0 (c # out) cs)
      else if esc = 5 then
        (if c = 0x75 then parse_chars 4 0 out cs
         else (case unescape c of None \<Rightarrow> None | Some v \<Rightarrow> parse_chars 0 0 (v # out) cs))
      else
        (case hexval c of
           None \<Rightarrow> None
         | Some h \<Rightarrow>
             if esc = 1 then parse_chars 0 0 ((acc * 16 + h) # out) cs
             else parse_chars (esc - 1) (acc * 16 + h) out cs))"

definition is_digit :: "nat \<Rightarrow> bool" where
  "is_digit c = (0x30 \<le> c \<and> c \<le> 0x39)"

definition parse_int :: "pystr \<Rightarrow> (json \<times> pystr) option" where
  "parse_int s =
     (let neg = (s \<noteq> [] \<and> hd s = 0x2D);
          t = (if neg then tl s else s);
          ds = takeWhile is_digit t;
          r = dropWhile is_digit t;
          v = foldl (\<lambda>a d. a * 10 + int (d - 0x30)) 0 ds
      in if ds = [] \<or> (1 < length ds \<and> hd ds = 0x30) then None
         else if r \<noteq> [] \<and> (hd r = 0x2E \<or> hd r = 0x65 \<or> hd r = 0x45) then None
         else Some (JInt (if neg then - v else v), r))"

fun parse_value :: "nat \<Rightarrow> pystr \<Rightarrow> (json \<times> pystr) option"
  and parse_elements :: "nat \<Rightarrow> pystr \<Rightarrow> (json list \<times> pystr) option"
  and parse_members :: "nat \<Rightarrow> pystr \<Rightarrow> ((pystr \<times> json) list \<times> pystr) option" where
  "parse_value 0 s = None"
| "parse_value (Suc n) s =
     (case s of
        [] \<Rightarrow> None
      | c # cs \<Rightarrow>
          if c = 0x22 then
            (case parse_chars 0 0 [] cs of None \<Rightarrow> None | Some (t, r) \<Rightarrow> Some (JStr t, r))
          else if c = 0x5B then
            (if prefix [0x5D] (skip_ws cs) then Some (JArr [], tl (skip_ws cs))
             else (case parse_elements n (skip_ws cs) of
                     None \<Rightarrow> None
                   | Some (vs, r) \<Rightarrow> Some (JArr vs, r)))
          else if c = 0x7B then
            (if prefix [0x7D] (skip_ws cs) then Some (JObj [], tl (skip_ws cs))
             else (case parse_members n (skip_ws cs) of
                     None \<Rightarrow> None
                   | Some (ms, r) \<Rightarrow> Some (JObj ms, r)))
          else if prefix (ascii ''true'') s then Some (JBool True, drop 4 s)
          else if prefix (ascii ''false'') s then Some (JBool False, drop 5 s)
          else parse_int s)"
| "parse_elements 0 s = None"
| "parse_elements (Suc n) s =
     (case parse_value n s of
        None \<Rightarrow> None
      | Some (v, r) \<Rightarrow>
          if prefix [0x2C] (skip_ws r) then
            (case parse_elements n (skip_ws (tl (skip_ws r))) of
               None \<Rightarrow> None
             | Some (vs, r') \<Rightarrow> Some (v # vs, r'))
          else if prefix [0x5D] (skip_ws r) then Some ([v], tl (skip_ws r))
          else None)"
| "parse_members 0 s = None"
| "parse_members (Suc n) s =
     (if prefix [0x22] s then
        (case parse_chars 0 0 [] (tl s) of
           None \<Rightarrow> None
         | Some (k, r0) \<Rightarrow>
             if prefix [0x3A] (skip_ws r0) then
               (case parse_value n (skip_ws (tl (skip_ws r0))) of
                  None \<Rightarrow> None
                | Some (v, r) \<Rightarrow>
                    if prefix [0x2C] (skip_ws r) then
                      (case parse_members n (skip_ws (tl (skip_ws r))) of
                         None \<Rightarrow> None
                       | Some (ms, r') \<Rightarrow> Some ((k, v) # ms, r'))
                    else if prefix [0x7D] (skip_ws r) then Some ([(k, v)], tl (skip_ws r))
                    else None)
             else None)
      else None)"

definition json_parse :: "pystr \<Rightarrow> json option" where
  "json_parse s =
     (case parse_value (Suc (length s)) (skip_ws s) of
        None \<Rightarrow> None
      | Some (v, r) \<Rightarrow> if skip_ws r = [] then Some v else None)"

text \<open>\<open>str.lower\<close> on ASCII text.\<close>

definition ascii_lower :: "pystr \<Rightarrow> pystr" where
  "ascii_lower s = map (\<lambda>c. if 0x41 \<le> c \<and> c \<le> 0x5A then c + 0x20 else c) s"

definition python_excerpt :: pylib where
  "python_excerpt =
     \<lparr>unicodedata_normalize_NFKC = nfkc,
      unicodedata_name = unicodedata_excerpt_name,
      codec_decode = excerpt_decode,
      codec_encode = excerpt_encode,
      json_dumps = json_encode 0,
      json_loads = json_parse,
      str_lower = ascii_lower\<rparr>"

section \<open>A sample run\<close>

text \<open>
  A source directory \<open>in\<close> with \<open>a.txt\<close> (U+3000 and the letter e, in UTF-8),
  \<open>notes.md\<close> and \<open>sub/b.txt\<close> (the letter e), beside an empty output directory
  \<open>out\<close>; the configuration \<open>main\<close> builds for \<open>--source in --output out\<close>; the report
  of a dry run over the two text files, and the text \<open>json.dumps\<close> gives for it.
\<close>

definition sample_tree :: node where
  "sample_tree =
     Dir [(ascii ''in'',
           Dir [(ascii ''a.txt'', File [0xE3, 0x80, 0x80, 0x65]),
                (ascii ''notes.md'', File [0x65]),
                (ascii ''sub'', Dir [(ascii ''b.txt'', File [0x65])])]),
          (ascii ''out'', Dir [])]"

definition sample_cfg :: NormalizeOriginalConfig where
  "sample_cfg =
     \<lparr>source_dir = [ascii ''in''],
      output_dir = [ascii ''out''],
      report_path = [ascii ''out'', ascii ''report.json''],
      encoding = ''utf-8''\<rparr>"

definition sample_files :: "path list" where
  "sample_files = [[ascii ''in'', ascii ''a.txt''], [ascii ''in'', ascii ''sub'', ascii ''b.txt'']]"

definition sample_report :: RunReport where
  "sample_report =
     \<lparr>report_source_dir = ascii ''in'',
      report_output_dir = ascii ''out'',
      report_dry_run = True,
      files =
        [\<lparr>path = ascii ''a.txt'', changed = True,
          characters_before = 2, characters_after = 2\<rparr>,
         \<lparr>path = ascii ''sub/b.txt'', changed = False,
          characters_before = 1, characters_after = 1\<rparr>]\<rparr>"

definition sample_report_text :: pystr where
  "sample_report_text =
     [123, 10, 32, 32, 34, 115, 111, 117, 114, 99, 101, 95, 100, 105, 114, 34, 58, 32, 34,
      105, 110, 34, 44, 10, 32, 32, 34, 111, 117, 116, 112, 117, 116, 95, 100, 105, 114,
      34, 58, 32, 34, 111, 117, 116, 34, 44, 10, 32, 32, 34, 100, 114, 121, 95, 114, 117,
      110, 34, 58, 32, 116, 114, 117, 101, 44, 10, 32, 32, 34, 102, 105, 108, 101, 115, 34,
      58, 32, 91, 10, 32, 32, 32, 32, 123, 10, 32, 32, 32, 32, 32, 32, 34, 112, 97, 116,
      104, 34, 58, 32, 34, 97, 46, 116, 120, 116, 34, 44, 10, 32, 32, 32, 32, 32, 32, 34,
      99, 104, 97, 110, 103, 101, 100, 34, 58, 32, 116, 114, 117, 101, 44, 10, 32, 32, 32,
      32, 32, 32, 34, 99, 104, 97, 114, 97, 99, 116, 101, 114, 115, 95, 98, 101, 102, 111,
      114, 101, 34, 58, 32, 50, 44, 10, 32, 32, 32, 32, 32, 32, 34, 99, 104, 97, 114, 97,
      99, 116, 101, 114, 115, 95, 97, 102, 116, 101, 114, 34, 58, 32, 50, 10, 32, 32, 32,
      32, 125, 44, 10, 32, 32, 32, 32, 123, 10, 32, 32, 32, 32, 32, 32, 34, 112, 97, 116,
      104, 34, 58, 32, 34, 115, 117, 98, 47, 98, 46, 116, 120, 116, 34, 44, 10, 32, 32, 32,
      32, 32, 32, 34, 99, 104, 97, 110, 103, 101, 100, 34, 58, 32, 102, 97, 108, 115, 101,
      44, 10, 32, 32, 32, 32, 32, 32, 34, 99, 104, 97, 114, 97, 99, 116, 101, 114, 115, 95,
      98, 101, 102, 111, 114, 101, 34, 58, 32, 49, 44, 10, 32, 32, 32, 32, 32, 32, 34, 99,
      104, 97, 114, 97, 99, 116, 101, 114, 115, 95, 97, 102, 116, 101, 114, 34, 58, 32, 49,
      10, 32, 32, 32, 32, 125, 10, 32, 32, 93, 10, 125]"

text \<open>
  A tree for discovery: below \<open>in\<close> the directories \<open>sub\<close>, \<open>a.d\<close>, \<open>a\<close> and
  \<open>d.txt\<close>, a FIFO \<open>pipe.txt\<close>, and the files \<open>notes.md\<close> and \<open>a.txt\<close>; beside
  \<open>in\<close> the file \<open>other.txt\<close>.
\<close>

definition discovery_tree :: node where
  "discovery_tree =
     Dir [(ascii ''in'',
           Dir [(ascii ''sub'', Dir [(ascii ''b.txt'', File [0x65])]),
                (ascii ''a.d'', Dir [(ascii ''x.txt'', File [])]),
                (ascii ''a'', Dir [(ascii ''x.txt'', File [])]),
                (ascii ''d.txt'', Dir [(ascii ''c.txt'', File [])]),
                (ascii ''pipe.txt'', Special),
                (ascii ''notes.md'', File [0x65]),
                (ascii ''a.txt'', File [0xE3, 0x80, 0x80, 0x65])]),
          (ascii ''other.txt'', File [])]"

text \<open>
  The configuration \<open>main\<close> builds for \<open>--source in --output in\<close>: the output
  directory is the source directory.
\<close>

definition inplace_cfg :: NormalizeOriginalConfig where
  "inplace_cfg =
     \<lparr>source_dir = [ascii ''in''],
      output_dir = [ascii ''in''],
      report_path = [ascii ''in'', ascii ''report.json''],
      encoding = ''utf-8''\<rparr>"

text \<open>
  Command lines and worlds: \<open>--source in --output out\<close>, the same with a source
  directory that does not exist, with the empty directory \<open>out\<close> as the source, and
  with \<open>--interactive\<close>; a world with nothing on standard input, and worlds where the
  answer \<open>n\<close> is waiting.
\<close>

definition sample_args :: args where
  "sample_args =
     \<lparr>dry_run = False, interactive = False,
      source = Some [ascii ''in''], output_arg = Some [ascii ''out'']\<rparr>"

definition missing_args :: args where
  "missing_args = sample_args\<lparr>source := Some [ascii ''missing'']\<rparr>"

definition empty_args :: args where
  "empty_args = sample_args\<lparr>source := Some [ascii ''out'']\<rparr>"

definition sample_world :: world where
  "sample_world = \<lparr>disk = sample_tree, stdin = [], stdout = []\<rparr>"

definition answering_no :: world where
  "answering_no = \<lparr>disk = sample_tree, stdin = [ascii ''n''], stdout = []\<rparr>"


text \<open>A file system with the source directory only, and one where \<open>out\<close> is a file.\<close>

definition source_only_tree :: node where
  "source_only_tree = Dir [(ascii ''in'', Dir [(ascii ''a.txt'', File [0x65])])]"


text \<open>
  A source directory whose second file is not UTF-8, beside an output directory that
  holds the report of an earlier run.
\<close>

definition broken_tree :: node where
  "broken_tree =
     Dir [(ascii ''in'',
           Dir [(ascii ''a.txt'', File [0x65]),
                (ascii ''b.txt'', File [0xFF]),
                (ascii ''c.txt'', File [0x65])]),
          (ascii ''out'', Dir [(ascii ''report.json'', File [0x7B, 0x7D])])]"

text \<open>
  The entries of the Unicode Character Database that concern the substitution table:
  the NFKC forms of its ten keys and the names of its five replacements.
\<close>

definition unicode_table_facts :: "pylib \<Rightarrow> bool" where
  "unicode_table_facts L \<longleftrightarrow>
     unicodedata_normalize_NFKC L [0x3000] = [0x20] \<and>
     unicodedata_normalize_NFKC L [0x2014] = [0x2014] \<and>
     unicodedata_normalize_NFKC L [0x2013] = [0x2013] \<and>
     unicodedata_normalize_NFKC L [0x00A0] = [0x20] \<and>
     unicodedata_normalize_NFKC L [0xFF5E] = [0x7E] \<and>
     unicodedata_normalize_NFKC L [0xFF0D] = [0x2D] \<and>
     unicodedata_normalize_NFKC L [0x2018] = [0x2018] \<and>
     unicodedata_normalize_NFKC L [0x2019] = [0x2019] \<and>
     unicodedata_normalize_NFKC L [0x201C] = [0x201C] \<and>
     unicodedata_normalize_NFKC L [0x201D] = [0x201D] \<and>
     unicodedata_name L 0x20 = Some ''SPACE'' \<and>
     unicodedata_name L 0x2D = Some ''HYPHEN-MINUS'' \<and>
     unicodedata_name L 0x7E = Some ''TILDE'' \<and>
     unicodedata_name L 0x27 = Some ''APOSTROPHE'' \<and>
     unicodedata_name L 0x22 = Some ''QUOTATION MARK''"

section \<open>Properties of the text normaliser\<close>

lemma str_join_empty_sep: "str_join [] xss = concat xss"
  by (induction "[]::pystr" xss rule: str_join.induct) auto

lemma str_contains_sublist: "str_contains pat s \<longleftrightarrow> sublist pat s"
  by (induction s) (auto simp: sublist_Cons_right)

lemma concat_kept_singletons:
  "concat (concat (map (\<lambda>ch. if P ch then [[ch]] else []) xs)) = filter P xs"
  by (induction xs) auto

lemma normalise_text_filter:
  "normalise_text L T =
     filter (\<lambda>ch. \<not> is_variation_selector L ch)
       (translate COMPATIBILITY_TRANSLATION (unicodedata_normalize_NFKC L T))"
  unfolding normalise_text_def Let_def str_join_empty_sep
  by (rule concat_kept_singletons)

lemma table_sources_eq:
  "table_sources =
     {0x3000, 0x2014, 0x2013, 0xA0, 0xFF5E, 0xFF0D, 0x2018, 0x2019, 0x201C, 0x201D}"
  by (simp add: table_sources_def COMPATIBILITY_TRANSLATION_def)

lemma table_targets:
  "(c, r) \<in> set COMPATIBILITY_TRANSLATION \<Longrightarrow> set r \<subseteq> {0x20, 0x2D, 0x7E, 0x27, 0x22}"
  by (auto simp: COMPATIBILITY_TRANSLATION_def)

lemma targets_not_sources: "{0x20, 0x2D, 0x7E, 0x27, 0x22} \<inter> table_sources = {}"
  by (simp add: table_sources_eq)

lemma map_of_table_Some:
  assumes "map_of COMPATIBILITY_TRANSLATION c = Some r"
  shows "set r \<inter> table_sources = {}"
proof -
  from assms have "(c, r) \<in> set COMPATIBILITY_TRANSLATION"
    by (rule map_of_SomeD)
  from table_targets[OF this] targets_not_sources show ?thesis
    by blast
qed

lemma map_of_table_None: "map_of COMPATIBILITY_TRANSLATION c = None \<longleftrightarrow> c \<notin> table_sources"
  by (simp add: table_sources_def map_of_eq_None_iff)

lemma translate_avoids_sources:
  "set (translate COMPATIBILITY_TRANSLATION s) \<inter> table_sources = {}"
proof (induction s)
  case Nil
  show ?case by simp
next
  case (Cons c cs)
  show ?case
  proof (cases "map_of COMPATIBILITY_TRANSLATION c")
    case None
    then have "c \<notin> table_sources"
      by (simp add: map_of_table_None)
    with None Cons show ?thesis by auto
  next
    case (Some r)
    with map_of_table_Some[OF Some] Cons show ?thesis by auto
  qed
qed

lemma translate_id:
  "set s \<inter> table_sources = {} \<Longrightarrow> translate COMPATIBILITY_TRANSLATION s = s"
proof (induction s)
  case Nil
  show ?case by simp
next
  case (Cons c cs)
  then have "map_of COMPATIBILITY_TRANSLATION c = None"
    by (simp add: map_of_table_None)
  with Cons show ?case by simp
qed

lemma normalise_text_avoids_sources: "set (normalise_text L T) \<inter> table_sources = {}"
  using translate_avoids_sources[of "unicodedata_normalize_NFKC L T"]
  by (auto simp: normalise_text_filter)

text \<open>Evaluating the excerpt.\<close>

lemmas ucd_eval =
  nfkc_def nfkc_decompose_def nfkc_reorder_def combining_class_def ucd_decomposition_def
  ucd_combining_def ucd_composition_def ucd_names_def unicodedata_excerpt_name_def
  name_or_def is_variation_selector_def COMPATIBILITY_TRANSLATION_def

lemma excerpt_fields [simp]:
  "unicodedata_normalize_NFKC python_excerpt = nfkc"
  "unicodedata_name python_excerpt = unicodedata_excerpt_name"
  "codec_decode python_excerpt = excerpt_decode"
  "codec_encode python_excerpt = excerpt_encode"
  "json_dumps python_excerpt = json_encode 0"
  "json_loads python_excerpt = json_parse"
  "str_lower python_excerpt = ascii_lower"
  by (simp_all add: python_excerpt_def)

lemma normalise_e_vs16_acute:
  "normalise_text python_excerpt [0x65, 0xFE0F, 0x301] = [0x65, 0x301]"
  by (simp add: normalise_text_filter ucd_eval)

lemma normalise_e_acute: "normalise_text python_excerpt [0x65, 0x301] = [0xE9]"
  by (simp add: normalise_text_filter ucd_eval)

lemma normalise_space_e_vs16:
  "normalise_text python_excerpt [0x3000, 0x65, 0xFE0F] = [0x20, 0x65]"
  by (simp add: normalise_text_filter ucd_eval)

lemma nfkc_space_e: "nfkc [0x20, 0x65] = [0x20, 0x65]"
  by (simp add: ucd_eval)

text \<open>
  Claim C1, as stated: for every text \<open>T\<close>, normalising twice gives what normalising
  once gives.  It fails.  Removing a variation selector can bring a letter and a
  combining mark together: U+0065 U+FE0F U+0301 is in NFKC form, the normaliser returns
  U+0065 U+0301, and normalising that composes it to U+00E9.
\<close>

theorem normalise_text_not_idempotent:
  "normalise_text python_excerpt (normalise_text python_excerpt [0x65, 0xFE0F, 0x301])
     \<noteq> normalise_text python_excerpt [0x65, 0xFE0F, 0x301]"
  by (simp add: normalise_e_vs16_acute normalise_e_acute)

text \<open>
  Claim C1, amended: for every library and every text \<open>T\<close> whose normalised text is
  in NFKC form (NFKC leaves \<open>normalise_text T\<close> unchanged), normalising twice gives what
  normalising once gives: the table's replacements are not keys of the table, and a
  variation selector that was removed is not there to remove again.
\<close>

theorem normalise_text_idempotent_if_stable:
  assumes "unicodedata_normalize_NFKC L (normalise_text L T) = normalise_text L T"
  shows "normalise_text L (normalise_text L T) = normalise_text L T"
proof -
  let ?R = "normalise_text L T"
  let ?keep = "\<lambda>ch. \<not> is_variation_selector L ch"
  have "normalise_text L ?R = filter ?keep (translate COMPATIBILITY_TRANSLATION ?R)"
    by (subst normalise_text_filter) (simp add: assms)
  also have "translate COMPATIBILITY_TRANSLATION ?R = ?R"
    by (rule translate_id) (rule normalise_text_avoids_sources)
  also have "filter ?keep ?R = ?R"
    by (subst (1 2) normalise_text_filter) simp
  finally show ?thesis .
qed

theorem normalise_text_idempotent_if_stable_witness:
  "unicodedata_normalize_NFKC python_excerpt (normalise_text python_excerpt [0x3000, 0x65, 0xFE0F])
     = normalise_text python_excerpt [0x3000, 0x65, 0xFE0F]
   \<and> normalise_text python_excerpt (normalise_text python_excerpt [0x3000, 0x65, 0xFE0F])
     = normalise_text python_excerpt [0x3000, 0x65, 0xFE0F]"
proof -
  have stable: "unicodedata_normalize_NFKC python_excerpt
      (normalise_text python_excerpt [0x3000, 0x65, 0xFE0F])
    = normalise_text python_excerpt [0x3000, 0x65, 0xFE0F]"
    by (simp add: normalise_space_e_vs16 nfkc_space_e)
  from normalise_text_idempotent_if_stable[OF stable] stable show ?thesis by simp
qed


lemma replacements_kept:
  assumes "unicode_table_facts L"
  shows "\<not> is_variation_selector L 0x20" "\<not> is_variation_selector L 0x2D"
    "\<not> is_variation_selector L 0x7E" "\<not> is_variation_selector L 0x27"
    "\<not> is_variation_selector L 0x22"
  using assms by (simp_all add: unicode_table_facts_def is_variation_selector_def name_or_def)

lemma normalise_table_keys:
  assumes "unicode_table_facts L"
  shows "normalise_text L [0x3000] = [0x20]" "normalise_text L [0x2014] = [0x2D]"
    "normalise_text L [0x2013] = [0x2D]" "normalise_text L [0x00A0] = [0x20]"
    "normalise_text L [0xFF5E] = [0x7E]" "normalise_text L [0xFF0D] = [0x2D]"
    "normalise_text L [0x2018] = [0x27]" "normalise_text L [0x2019] = [0x27]"
    "normalise_text L [0x201C] = [0x22]" "normalise_text L [0x201D] = [0x22]"
  using assms replacements_kept[OF assms]
  by (simp_all add: unicode_table_facts_def normalise_text_filter COMPATIBILITY_TRANSLATION_def)

lemma excerpt_table_facts: "unicode_table_facts python_excerpt"
  by (simp add: unicode_table_facts_def ucd_eval)

text \<open>
  Claim C2: for each of the ten pairs of the substitution table, normalising the
  one-character string of the source character gives a string that contains the
  replacement and not the source character; and no normalised text, whatever the input,
  contains any of the ten source code points.  The first part rests on the NFKC forms of
  the ten characters and on the names of the five replacements in the Unicode database;
  the second holds for every library.
\<close>

theorem table_coverage:
  assumes "unicode_table_facts L"
  shows "(\<forall>(c, r) \<in> set COMPATIBILITY_TRANSLATION.
            str_contains r (normalise_text L [c]) \<and> c \<notin> set (normalise_text L [c]))
         \<and> (\<forall>T. \<forall>(c, r) \<in> set COMPATIBILITY_TRANSLATION. c \<notin> set (normalise_text L T))"
proof
  show "\<forall>(c, r) \<in> set COMPATIBILITY_TRANSLATION.
          str_contains r (normalise_text L [c]) \<and> c \<notin> set (normalise_text L [c])"
    unfolding COMPATIBILITY_TRANSLATION_def
    by (simp add: normalise_table_keys[OF assms])
  show "\<forall>T. \<forall>(c, r) \<in> set COMPATIBILITY_TRANSLATION. c \<notin> set (normalise_text L T)"
    using normalise_text_avoids_sources[of L] by (force simp: table_sources_def)
qed

theorem table_coverage_witness:
  "unicode_table_facts python_excerpt
   \<and> str_contains [0x20] (normalise_text python_excerpt [0x3000])
   \<and> 0x3000 \<notin> set (normalise_text python_excerpt [0x3000])
   \<and> 0x2014 \<notin> set (normalise_text python_excerpt [0x65, 0x2014, 0x301])"
  using table_coverage[OF excerpt_table_facts] excerpt_table_facts
  by (simp add: COMPATIBILITY_TRANSLATION_def)

lemma count_list_filter:
  "count_list (filter P xs) c = (if P c then count_list xs c else 0)"
  by (induction xs) auto

text \<open>
  Claim C3: the normalised text is the NFKC-normalised and substituted text without the
  characters whose Unicode name contains \<open>VARIATION SELECTOR\<close>: the characters that stay
  keep their order, a character with no registered name stays as often as it occurs,
  and U+FE0F, named \<open>VARIATION SELECTOR-16\<close>, does not occur in the result.
\<close>

theorem variation_selector_removal:
  "normalise_text L T =
     filter (\<lambda>ch. \<not> sublist ''VARIATION SELECTOR''
                      (case unicodedata_name L ch of None \<Rightarrow> '''' | Some n \<Rightarrow> n))
       (translate COMPATIBILITY_TRANSLATION (unicodedata_normalize_NFKC L T))
   \<and> subseq (normalise_text L T)
        (translate COMPATIBILITY_TRANSLATION (unicodedata_normalize_NFKC L T))
   \<and> (\<forall>ch. unicodedata_name L ch = None \<longrightarrow>
         count_list (normalise_text L T) ch =
         count_list (translate COMPATIBILITY_TRANSLATION (unicodedata_normalize_NFKC L T)) ch)
   \<and> (unicodedata_name L 0xFE0F = Some ''VARIATION SELECTOR-16'' \<longrightarrow>
         0xFE0F \<notin> set (normalise_text L T))"
proof (intro conjI allI impI)
  show "normalise_text L T =
     filter (\<lambda>ch. \<not> sublist ''VARIATION SELECTOR''
                      (case unicodedata_name L ch of None \<Rightarrow> '''' | Some n \<Rightarrow> n))
       (translate COMPATIBILITY_TRANSLATION (unicodedata_normalize_NFKC L T))"
    by (simp add: normalise_text_filter is_variation_selector_def name_or_def
        str_contains_sublist)
  show "subseq (normalise_text L T)
        (translate COMPATIBILITY_TRANSLATION (unicodedata_normalize_NFKC L T))"
    by (simp add: normalise_text_filter)
next
  fix ch
  assume "unicodedata_name L ch = None"
  then have "\<not> is_variation_selector L ch"
    by (simp add: is_variation_selector_def name_or_def)
  then show "count_list (normalise_text L T) ch =
         count_list (translate COMPATIBILITY_TRANSLATION (unicodedata_normalize_NFKC L T)) ch"
    by (simp add: normalise_text_filter count_list_filter)
next
  assume "unicodedata_name L 0xFE0F = Some ''VARIATION SELECTOR-16''"
  then have "is_variation_selector L 0xFE0F"
    by (simp add: is_variation_selector_def name_or_def)
  then show "0xFE0F \<notin> set (normalise_text L T)"
    by (simp add: normalise_text_filter)
qed

lemma normalise_newline_heart_vs16:
  "normalise_text python_excerpt [0x0A, 0x2764, 0xFE0F] = [0x0A, 0x2764]"
  by (simp add: normalise_text_filter ucd_eval)

theorem variation_selector_removal_witness:
  "unicodedata_name python_excerpt 0x0A = None
   \<and> unicodedata_name python_excerpt 0xFE0F = Some ''VARIATION SELECTOR-16''
   \<and> normalise_text python_excerpt [0x0A, 0x2764, 0xFE0F] = [0x0A, 0x2764]
   \<and> count_list (normalise_text python_excerpt [0x0A, 0x2764, 0xFE0F]) 0x0A = 1
   \<and> 0xFE0F \<notin> set (normalise_text python_excerpt [0x0A, 0x2764, 0xFE0F])"
proof -
  have n: "unicodedata_name python_excerpt 0x0A = None"
    and v: "unicodedata_name python_excerpt 0xFE0F = Some ''VARIATION SELECTOR-16''"
    by (simp_all add: ucd_eval)
  have t: "translate COMPATIBILITY_TRANSLATION
      (unicodedata_normalize_NFKC python_excerpt [0x0A, 0x2764, 0xFE0F]) = [0x0A, 0x2764, 0xFE0F]"
    by (simp add: ucd_eval)
  note all = variation_selector_removal[of python_excerpt "[0x0A, 0x2764, 0xFE0F]"]
  note kept = all[THEN conjunct2, THEN conjunct2, THEN conjunct1, rule_format, OF n]
  note gone = all[THEN conjunct2, THEN conjunct2, THEN conjunct2, rule_format, OF v]
  from kept have "count_list (normalise_text python_excerpt [0x0A, 0x2764, 0xFE0F]) 0x0A = 1"
    unfolding t by simp
  with gone n v normalise_newline_heart_vs16 show ?thesis
    by blast
qed

section \<open>Properties of the file system\<close>

lemma stat_Nil [simp]: "stat n [] = Some (kind_of n)"
  by (simp add: stat_def)

lemma stat_Cons_Dir [simp]:
  "stat (Dir es) (c # cs) = (case map_of es c of None \<Rightarrow> None | Some m \<Rightarrow> stat m cs)"
  by (simp add: stat_def split: option.split)

lemma stat_Cons_File [simp]: "stat (File b) (c # cs) = None"
  by (simp add: stat_def)

lemma stat_Cons_Special [simp]: "stat Special (c # cs) = None"
  by (simp add: stat_def)

lemma is_dir_stat: "is_dir fs p \<longleftrightarrow> stat fs p = Some KDir"
  by (auto simp: is_dir_def stat_def split: option.splits node.splits)

lemma is_file_stat: "is_file fs p \<longleftrightarrow> (\<exists>b. stat fs p = Some (KFile b))"
  by (auto simp: is_file_def stat_def split: option.splits node.splits)

lemma path_exists_stat: "path_exists fs p \<longleftrightarrow> stat fs p \<noteq> None"
  by (simp add: path_exists_def stat_def)

lemma read_bytes_stat: "read_bytes n p = Inr b \<longleftrightarrow> stat n p = Some (KFile b)"
proof (induction p arbitrary: n)
  case Nil
  show ?case by (cases n) auto
next
  case (Cons c cs)
  then show ?case by (cases n) (auto split: option.splits)
qed

lemma stat_empty_dir: "stat (Dir []) q = (if q = [] then Some KDir else None)"
  by (cases q) auto

lemma mkdir_parents_stat:
  "mkdir_parents n p = Inr n' \<Longrightarrow>
     stat n' q = (if stat n q = None \<and> prefix q p then Some KDir else stat n q)"
proof (induction p arbitrary: n n' q)
  case Nil
  then show ?case by (cases n) auto
next
  case (Cons c cs)
  from Cons.prems obtain es where n: "n = Dir es"
    by (cases n) auto
  define m0 where "m0 = (case map_of es c of None \<Rightarrow> Dir [] | Some m \<Rightarrow> m)"
  from Cons.prems n obtain m' where m': "mkdir_parents m0 cs = Inr m'"
    and n': "n' = Dir (AList.update c m' es)"
    by (auto simp: m0_def split: sum.splits)
  note IH = Cons.IH[OF m']
  show ?case
  proof (cases q)
    case Nil
    with n n' show ?thesis by simp
  next
    case (Cons d ds)
    show ?thesis
    proof (cases "d = c")
      case False
      with Cons n n' show ?thesis by (simp add: update_conv')
    next
      case True
      show ?thesis
      proof (cases "map_of es c")
        case None
        with True Cons n n' IH[of ds] show ?thesis
          by (simp add: update_conv' m0_def stat_empty_dir)
      next
        case (Some m)
        with True Cons n n' IH[of ds] show ?thesis
          by (simp add: update_conv' m0_def)
      qed
    qed
  qed
qed

lemma write_bytes_stat:
  "write_bytes n p b = Inr n' \<Longrightarrow> stat n' q = (if q = p then Some (KFile b) else stat n q)"
proof (induction p arbitrary: n n' q)
  case Nil
  then show ?case by (cases n; cases q) auto
next
  case (Cons c cs)
  from Cons.prems obtain es where n: "n = Dir es"
    by (cases n) auto
  show ?case
  proof (cases "map_of es c")
    case None
    with Cons.prems n have cs: "cs = []" and n': "n' = Dir (AList.update c (File b) es)"
      by (auto split: if_splits)
    show ?thesis
    proof (cases q)
      case Nil
      with n n' show ?thesis by simp
    next
      case (Cons d ds)
      with n n' cs None show ?thesis
        by (cases ds) (auto simp: update_conv')
    qed
  next
    case (Some m)
    with Cons.prems n obtain m' where m': "write_bytes m cs b = Inr m'"
      and n': "n' = Dir (AList.update c m' es)"
      by (auto split: sum.splits)
    note IH = Cons.IH[OF m']
    show ?thesis
    proof (cases q)
      case Nil
      with n n' show ?thesis by simp
    next
      case (Cons d ds)
      with n n' Some IH[of ds] show ?thesis
        by (auto simp: update_conv')
    qed
  qed
qed

lemma mkdir_parents_prefix_dir:
  "mkdir_parents n p = Inr n' \<Longrightarrow> prefix q p \<Longrightarrow> stat n' q = Some KDir"
proof (induction p arbitrary: n n' q)
  case Nil
  then show ?case by (cases n) auto
next
  case (Cons c cs)
  from Cons.prems obtain es where n: "n = Dir es"
    by (cases n) auto
  from Cons.prems n obtain m0 m' where m': "mkdir_parents m0 cs = Inr m'"
    and n': "n' = Dir (AList.update c m' es)"
    by (auto split: sum.splits)
  show ?case
  proof (cases q)
    case Nil
    with n' show ?thesis by simp
  next
    case (Cons d ds)
    with Cons.prems(2) have "d = c" "prefix ds cs" by auto
    with Cons n' Cons.IH[OF m'] show ?thesis
      by (simp add: update_conv')
  qed
qed

lemma write_bytes_target:
  "write_bytes n p b = Inr n' \<Longrightarrow> stat n p \<noteq> Some KDir \<and> stat n p \<noteq> Some KSpecial"
proof (induction p arbitrary: n n')
  case Nil
  then show ?case by (cases n) auto
next
  case (Cons c cs)
  then show ?case
    by (cases n) (auto split: option.splits sum.splits if_splits)
qed

lemma write_text_stat:
  assumes "write_text L t p s enc = (Inr u, t')"
  shows "\<exists>b. codec_encode L enc s = Inr b
           \<and> (\<forall>q. stat t' q = (if q = p then Some (KFile b) else stat t q))"
proof -
  from assms obtain t0 b where t0: "write_bytes t p [] = Inr t0"
    and b: "codec_encode L enc s = Inr b" and t': "write_bytes t0 p b = Inr t'"
    by (auto simp: write_text_def split: sum.splits)
  from write_bytes_stat[OF t0] write_bytes_stat[OF t'] b show ?thesis
    by auto
qed

lemma write_text_frame:
  assumes "write_text L t p s enc = (r, t')" and "q \<noteq> p"
  shows "stat t' q = stat t q"
proof -
  consider "t' = t"
    | t0 where "write_bytes t p [] = Inr t0" "t' = t0"
    | t0 b where "write_bytes t p [] = Inr t0" "write_bytes t0 p b = Inr t'"
    using assms(1) by (auto simp: write_text_def split: sum.splits)
  then show ?thesis
  proof cases
    case 1
    then show ?thesis by simp
  next
    case 2
    with write_bytes_stat[OF 2(1)] assms(2) show ?thesis by simp
  next
    case 3
    with write_bytes_stat[OF 3(1)] write_bytes_stat[OF 3(2)] assms(2) show ?thesis by simp
  qed
qed

lemma write_text_target:
  assumes "write_text L t p s enc = (r, t')"
  shows "t' = t \<or> (stat t p \<noteq> Some KDir \<and> stat t p \<noteq> Some KSpecial
                      \<and> (\<exists>b. stat t' p = Some (KFile b)))"
proof -
  consider "t' = t"
    | t0 where "write_bytes t p [] = Inr t0" "t' = t0"
    | t0 b where "write_bytes t p [] = Inr t0" "write_bytes t0 p b = Inr t'"
    using assms(1) by (auto simp: write_text_def split: sum.splits)
  then show ?thesis
  proof cases
    case 1
    then show ?thesis by simp
  next
    case 2
    with write_bytes_stat[OF 2(1)] write_bytes_target[OF 2(1)] show ?thesis by simp
  next
    case 3
    with write_bytes_stat[OF 3(2)] write_bytes_target[OF 3(1)] show ?thesis by simp
  qed
qed

lemma write_text_keeps_dirs:
  assumes "write_text L t p s enc = (r, t')" and "stat t q = Some KDir"
  shows "stat t' q = Some KDir"
proof (cases "q = p")
  case True
  with write_text_target[OF assms(1)] assms(2) show ?thesis by auto
next
  case False
  with write_text_frame[OF assms(1) False] assms(2) show ?thesis by simp
qed

lemma mkdir_parents_keeps:
  assumes "mkdir_parents t p = Inr t'" and "stat t q \<noteq> None"
  shows "stat t' q = stat t q"
  using mkdir_parents_stat[OF assms(1), of q] assms(2) by simp


lemma ensure_directories_stat:
  assumes "ensure_directories cfg t = (Inr u, t')"
  shows "stat t' q =
           (if stat t q = None \<and> (prefix q (output_dir cfg) \<or> prefix q (parent (report_path cfg)))
            then Some KDir else stat t q)"
proof -
  from assms obtain t1 where t1: "mkdir_parents t (output_dir cfg) = Inr t1"
    and t': "mkdir_parents t1 (parent (report_path cfg)) = Inr t'"
    by (auto simp: ensure_directories_def split: sum.splits)
  show ?thesis
    unfolding mkdir_parents_stat[OF t'] mkdir_parents_stat[OF t1] by auto
qed

lemma ensure_directories_dirs:
  assumes "ensure_directories cfg t = (Inr u, t')"
  shows "is_dir t' (output_dir cfg)" "is_dir t' (parent (report_path cfg))"
proof -
  from assms obtain t1 where t1: "mkdir_parents t (output_dir cfg) = Inr t1"
    and t': "mkdir_parents t1 (parent (report_path cfg)) = Inr t'"
    by (auto simp: ensure_directories_def split: sum.splits)
  from mkdir_parents_prefix_dir[OF t1, of "output_dir cfg"]
  have "stat t1 (output_dir cfg) = Some KDir" by simp
  with mkdir_parents_keeps[OF t'] show "is_dir t' (output_dir cfg)"
    by (simp add: is_dir_stat)
  from mkdir_parents_prefix_dir[OF t', of "parent (report_path cfg)"]
  show "is_dir t' (parent (report_path cfg))"
    by (simp add: is_dir_stat)
qed

lemma ensure_directories_failure:
  assumes "ensure_directories cfg t = (Inl e, t')"
  shows "stat t' q = stat t q \<or> (stat t q = None \<and> stat t' q = Some KDir)"
proof -
  consider "t' = t" | "mkdir_parents t (output_dir cfg) = Inr t'"
    using assms by (auto simp: ensure_directories_def split: sum.splits)
  then show ?thesis
  proof cases
    case 1
    then show ?thesis by simp
  next
    case 2
    from mkdir_parents_stat[OF 2, of q] show ?thesis by auto
  qed
qed

section \<open>Properties of the batch\<close>

lemma relative_to_Inr:
  "relative_to p base = Inr rel \<longleftrightarrow> prefix base p \<and> rel = drop (length base) p"
  by (auto simp: relative_to_def)

lemma process_file_read_failure:
  "read_text L t p (encoding cfg) = Inl e \<Longrightarrow> process_file L cfg dry p t = (Inl e, t)"
  by (simp add: process_file_def)

lemma process_file_dry: "process_file L cfg True p t = (r, t') \<Longrightarrow> t' = t"
  by (auto simp: process_file_def Let_def split: sum.splits)

lemma process_file_Inr:
  assumes "process_file L cfg dry p t = (Inr r, t')"
  shows "\<exists>c. read_text L t p (encoding cfg) = Inr c \<and> prefix (source_dir cfg) p
           \<and> r = \<lparr>path = path_str (drop (length (source_dir cfg)) p),
                    changed = (normalise_text L c \<noteq> c),
                    characters_before = length c,
                    characters_after = length (normalise_text L c)\<rparr>
           \<and> (dry \<longrightarrow> t' = t)
           \<and> (\<not> dry \<longrightarrow>
                (\<exists>b. codec_encode L (encoding cfg) (normalise_text L c) = Inr b
                   \<and> (\<forall>q. stat t' q =
                          (if q = output_path_of cfg p then Some (KFile b)
                           else if stat t q = None \<and> prefix q (parent (output_path_of cfg p))
                           then Some KDir else stat t q))))"
proof -
  from assms obtain c where c: "read_text L t p (encoding cfg) = Inr c"
    by (auto simp: process_file_def split: sum.splits)
  from assms c have pre: "prefix (source_dir cfg) p"
    by (auto simp: process_file_def Let_def relative_to_def split: sum.splits if_splits)
  then have rel: "relative_to p (source_dir cfg) = Inr (drop (length (source_dir cfg)) p)"
    by (simp add: relative_to_def)
  let ?r = "\<lparr>path = path_str (drop (length (source_dir cfg)) p),
              changed = (normalise_text L c \<noteq> c),
              characters_before = length c,
              characters_after = length (normalise_text L c)\<rparr>"
  show ?thesis
  proof (cases dry)
    case True
    with assms c rel have "r = ?r" "t' = t"
      by (auto simp: process_file_def Let_def)
    with c pre True show ?thesis by blast
  next
    case False
    with assms c rel obtain t1 u where t1: "mkdir_parents t (parent (output_path_of cfg p)) = Inr t1"
      and w: "write_text L t1 (output_path_of cfg p) (normalise_text L c) (encoding cfg) = (Inr u, t')"
      and r: "r = ?r"
      by (auto simp: process_file_def Let_def output_path_of_def split: sum.splits prod.splits)
    from write_text_stat[OF w] obtain b
      where b: "codec_encode L (encoding cfg) (normalise_text L c) = Inr b"
        and st: "\<And>q. stat t' q = (if q = output_path_of cfg p then Some (KFile b) else stat t1 q)"
      by blast
    have "\<forall>q. stat t' q =
            (if q = output_path_of cfg p then Some (KFile b)
             else if stat t q = None \<and> prefix q (parent (output_path_of cfg p))
             then Some KDir else stat t q)"
      unfolding st mkdir_parents_stat[OF t1] by simp
    with c pre r b False show ?thesis by blast
  qed
qed

lemma process_file_frame:
  assumes "process_file L cfg dry p t = (r, t')" and "q \<noteq> output_path_of cfg p"
  shows "stat t' q = stat t q \<or> (stat t q = None \<and> stat t' q = Some KDir)"
proof -
  consider "t' = t"
    | t1 c r' where "mkdir_parents t (parent (output_path_of cfg p)) = Inr t1"
        "write_text L t1 (output_path_of cfg p) (normalise_text L c) (encoding cfg) = (r', t')"
    using assms(1)
    by (auto simp: process_file_def Let_def output_path_of_def relative_to_def
        split: sum.splits prod.splits if_splits)
  then show ?thesis
  proof cases
    case 1
    then show ?thesis by simp
  next
    case 2
    from write_text_frame[OF 2(2) assms(2)] mkdir_parents_stat[OF 2(1), of q]
    show ?thesis by auto
  qed
qed

lemma process_file_keeps_dirs:
  assumes "process_file L cfg dry p t = (r, t')" and "stat t q = Some KDir"
  shows "stat t' q = Some KDir"
proof -
  consider "t' = t"
    | t1 c r' where "mkdir_parents t (parent (output_path_of cfg p)) = Inr t1"
        "write_text L t1 (output_path_of cfg p) (normalise_text L c) (encoding cfg) = (r', t')"
    using assms(1)
    by (auto simp: process_file_def Let_def output_path_of_def relative_to_def
        split: sum.splits prod.splits if_splits)
  then show ?thesis
  proof cases
    case 1
    with assms(2) show ?thesis by simp
  next
    case 2
    from mkdir_parents_keeps[OF 2(1), of q] assms(2) have "stat t1 q = Some KDir" by simp
    from write_text_keeps_dirs[OF 2(2) this] show ?thesis .
  qed
qed

lemma loop_append:
  "process_files_loop L cfg dry (xs @ ys) rs t =
     (case process_files_loop L cfg dry xs rs t of
        (Inl e, t') \<Rightarrow> (Inl e, t')
      | (Inr rs', t') \<Rightarrow> process_files_loop L cfg dry ys rs' t')"
  by (induction xs arbitrary: rs t) (auto split: prod.splits sum.splits)

lemma loop_reports:
  "process_files_loop L cfg dry fls rs t = (Inr rs', t') \<Longrightarrow>
     \<exists>new. rs' = rs @ new \<and> length new = length fls"
proof (induction fls arbitrary: rs t)
  case Nil
  then show ?case by simp
next
  case (Cons p ps)
  from Cons.prems obtain r t1 where "process_file L cfg dry p t = (Inr r, t1)"
    and "process_files_loop L cfg dry ps (rs @ [r]) t1 = (Inr rs', t')"
    by (auto split: prod.splits sum.splits)
  from Cons.IH[OF this(2)] obtain new where "rs' = (rs @ [r]) @ new" "length new = length ps"
    by blast
  then have "rs' = rs @ (r # new) \<and> length (r # new) = length (p # ps)" by simp
  then show ?case by blast
qed

lemma loop_dry: "process_files_loop L cfg True fls rs t = (r, t') \<Longrightarrow> t' = t"
proof (induction fls arbitrary: rs t)
  case Nil
  then show ?case by simp
next
  case (Cons p ps)
  then show ?case
    by (auto split: prod.splits sum.splits dest: process_file_dry)
qed

lemma loop_keeps_dirs:
  "process_files_loop L cfg dry fls rs t = (r, t') \<Longrightarrow> stat t q = Some KDir \<Longrightarrow>
     stat t' q = Some KDir"
proof (induction fls arbitrary: rs t)
  case Nil
  then show ?case by simp
next
  case (Cons p ps)
  obtain r1 t1 where pf: "process_file L cfg dry p t = (r1, t1)"
    by (cases "process_file L cfg dry p t")
  from process_file_keeps_dirs[OF pf Cons.prems(2)] have d: "stat t1 q = Some KDir" .
  show ?case
  proof (cases r1)
    case (Inl e)
    with pf Cons.prems(1) d show ?thesis by simp
  next
    case (Inr r')
    with pf Cons.prems(1) have "process_files_loop L cfg dry ps (rs @ [r']) t1 = (r, t')"
      by simp
    from Cons.IH[OF this d] show ?thesis .
  qed
qed

lemma loop_frame:
  "process_files_loop L cfg dry fls rs t = (r, t') \<Longrightarrow>
   q \<notin> output_path_of cfg ` set fls \<Longrightarrow>
     stat t' q = stat t q \<or> (stat t q = None \<and> stat t' q = Some KDir)"
proof (induction fls arbitrary: rs t)
  case Nil
  then show ?case by simp
next
  case (Cons p ps)
  obtain r1 t1 where pf: "process_file L cfg dry p t = (r1, t1)"
    by (cases "process_file L cfg dry p t")
  from Cons.prems(2) have q: "q \<noteq> output_path_of cfg p" "q \<notin> output_path_of cfg ` set ps"
    by auto
  note step = process_file_frame[OF pf q(1)]
  show ?case
  proof (cases r1)
    case (Inl e)
    with pf Cons.prems(1) step show ?thesis by simp
  next
    case (Inr r')
    with pf Cons.prems(1) have l: "process_files_loop L cfg dry ps (rs @ [r']) t1 = (r, t')"
      by simp
    from Cons.IH[OF l q(2)] have rest: "stat t' q = stat t1 q \<or> (stat t1 q = None \<and> stat t' q = Some KDir)" .
    from step show ?thesis
    proof
      assume "stat t1 q = stat t q"
      with rest show ?thesis by simp
    next
      assume a: "stat t q = None \<and> stat t1 q = Some KDir"
      with loop_keeps_dirs[OF l, of q] show ?thesis by simp
    qed
  qed
qed

lemma process_files_Inr:
  "process_files L fls cfg dry t = (Inr report, t') \<longleftrightarrow>
     (\<exists>rs. process_files_loop L cfg dry fls [] t = (Inr rs, t')
        \<and> report = \<lparr>report_source_dir = path_str (source_dir cfg),
                      report_output_dir = path_str (output_dir cfg),
                      report_dry_run = dry, files = rs\<rparr>)"
  by (auto simp: process_files_def split: prod.splits sum.splits)

lemma process_files_Inl:
  "process_files L fls cfg dry t = (Inl e, t') \<longleftrightarrow>
     process_files_loop L cfg dry fls [] t = (Inl e, t')"
  by (auto simp: process_files_def split: prod.splits sum.splits)

lemma process_files_step:
  assumes "process_files L fls cfg dry t = (Inr report, t')" and "i < length fls"
  shows "\<exists>rep ti tj. process_files L (take i fls) cfg dry t = (Inr rep, ti)
           \<and> process_file L cfg dry (fls ! i) ti = (Inr (files report ! i), tj)"
proof -
  from assms(1) obtain rs where l: "process_files_loop L cfg dry fls [] t = (Inr rs, t')"
    and rep: "files report = rs"
    by (auto simp: process_files_Inr)
  have split: "fls = take i fls @ (fls ! i # drop (Suc i) fls)"
    using assms(2) by (simp add: id_take_nth_drop)
  from l have "process_files_loop L cfg dry (take i fls @ (fls ! i # drop (Suc i) fls)) [] t
      = (Inr rs, t')"
    using split by simp
  then obtain rsi ti where li: "process_files_loop L cfg dry (take i fls) [] t = (Inr rsi, ti)"
    and lr: "process_files_loop L cfg dry (fls ! i # drop (Suc i) fls) rsi ti = (Inr rs, t')"
    unfolding loop_append by (auto split: prod.splits sum.splits)
  from lr obtain r tj where pf: "process_file L cfg dry (fls ! i) ti = (Inr r, tj)"
    and lt: "process_files_loop L cfg dry (drop (Suc i) fls) (rsi @ [r]) tj = (Inr rs, t')"
    by (auto split: prod.splits sum.splits)
  from loop_reports[OF li] assms(2) have len: "length rsi = i" by auto
  from loop_reports[OF lt] obtain new where "rs = (rsi @ [r]) @ new" by blast
  with len have "rs ! i = r" by (simp add: nth_append)
  with pf rep li show ?thesis
    by (auto simp: process_files_Inr)
qed

lemma json_field_files:
  "json_field (payload report) (ascii ''files'') = Some (JArr (map asdict (files report)))"
  by (simp add: json_field_def payload_def ascii_def)

lemma json_field_asdict:
  "json_field (asdict item) (ascii ''changed'') = Some (JBool (changed item))"
  "json_field (asdict item) (ascii ''characters_before'') = Some (JInt (int (characters_before item)))"
  "json_field (asdict item) (ascii ''characters_after'') = Some (JInt (int (characters_after item)))"
  by (simp_all add: json_field_def asdict_def ascii_def)

lemma write_report_written:
  assumes "write_report L report cfg t = (Inr u, t')"
  shows "\<exists>b. codec_encode L (encoding cfg) (json_dumps L (payload report)) = Inr b
           \<and> read_bytes t' (report_path cfg) = Inr b"
  using write_text_stat[OF assms[unfolded write_report_def]]
  by (auto simp: read_bytes_stat)

lemma process_files_length:
  assumes "process_files L fls cfg dry t = (Inr report, t')"
  shows "length (files report) = length fls"
proof -
  from assms obtain rs where l: "process_files_loop L cfg dry fls [] t = (Inr rs, t')"
    and rep: "files report = rs"
    by (auto simp: process_files_Inr)
  from loop_reports[OF l] rep show ?thesis by simp
qed

lemma process_files_entry:
  assumes "process_files L fls cfg dry t = (Inr report, t')" and i: "i < length fls"
  shows "\<exists>original.
         read_text L (snd (process_files L (take i fls) cfg dry t)) (fls ! i) (encoding cfg)
           = Inr original
       \<and> changed (files report ! i) = (normalise_text L original \<noteq> original)
       \<and> characters_before (files report ! i) = length original
       \<and> characters_after (files report ! i) = length (normalise_text L original)
       \<and> (normalise_text L original = original \<longrightarrow>
            \<not> changed (files report ! i)
            \<and> characters_before (files report ! i) = characters_after (files report ! i))"
proof -
  from process_files_step[OF assms] obtain rep ti tj
    where pi: "process_files L (take i fls) cfg dry t = (Inr rep, ti)"
      and pf: "process_file L cfg dry (fls ! i) ti = (Inr (files report ! i), tj)"
    by blast
  from process_file_Inr[OF pf] obtain c
    where c: "read_text L ti (fls ! i) (encoding cfg) = Inr c"
      and r: "files report ! i = \<lparr>path = path_str (drop (length (source_dir cfg)) (fls ! i)),
                  changed = (normalise_text L c \<noteq> c),
                  characters_before = length c,
                  characters_after = length (normalise_text L c)\<rparr>"
    by blast
  from pi c r show ?thesis by auto
qed

lemma process_files_dry:
  assumes "process_files L fls cfg True t = (r, t')"
  shows "t' = t"
proof -
  obtain r1 t1 where l: "process_files_loop L cfg True fls [] t = (r1, t1)"
    by (cases "process_files_loop L cfg True fls [] t")
  from loop_dry[OF l] l assms show ?thesis
    by (auto simp: process_files_def split: sum.splits)
qed

lemma process_files_dry_prefix:
  assumes "dry"
  shows "snd (process_files L (take i fls) cfg dry t) = t"
proof -
  obtain r1 t1 where "process_files L (take i fls) cfg dry t = (r1, t1)"
    by (cases "process_files L (take i fls) cfg dry t")
  with process_files_dry[of L "take i fls" cfg t r1 t1] assms show ?thesis by simp
qed

lemma written_report_parsed:
  assumes len: "length (files report) = n"
    and w: "write_report L report cfg t' = (Inr u, t'')"
  shows "\<exists>b. read_bytes t'' (report_path cfg) = Inr b
           \<and> codec_encode L (encoding cfg) (json_dumps L (payload report)) = Inr b
           \<and> (codec_decode L (encoding cfg) b = Inr (json_dumps L (payload report)) \<longrightarrow>
               json_loads L (json_dumps L (payload report)) = Some (payload report) \<longrightarrow>
               (\<exists>txt doc ents.
                  read_text L t'' (report_path cfg) (encoding cfg) = Inr txt
                \<and> json_loads L txt = Some doc
                \<and> json_field doc (ascii ''files'') = Some (JArr ents)
                \<and> length ents = n
                \<and> (\<forall>i<n.
                      json_field (ents ! i) (ascii ''changed'')
                        = Some (JBool (changed (files report ! i)))
                    \<and> json_field (ents ! i) (ascii ''characters_before'')
                        = Some (JInt (int (characters_before (files report ! i))))
                    \<and> json_field (ents ! i) (ascii ''characters_after'')
                        = Some (JInt (int (characters_after (files report ! i)))))))"
proof -
  from write_report_written[OF w] obtain b
    where b: "codec_encode L (encoding cfg) (json_dumps L (payload report)) = Inr b"
      and rb: "read_bytes t'' (report_path cfg) = Inr b"
    by blast
  {
    assume d: "codec_decode L (encoding cfg) b = Inr (json_dumps L (payload report))"
      and j: "json_loads L (json_dumps L (payload report)) = Some (payload report)"
    from rb d have "read_text L t'' (report_path cfg) (encoding cfg)
        = Inr (json_dumps L (payload report))"
      by (simp add: read_text_def)
    moreover note j json_field_files[of report]
    moreover have "length (map asdict (files report)) = n"
      using len by simp
    moreover have "\<forall>i<n.
          json_field (map asdict (files report) ! i) (ascii ''changed'')
            = Some (JBool (changed (files report ! i)))
        \<and> json_field (map asdict (files report) ! i) (ascii ''characters_before'')
            = Some (JInt (int (characters_before (files report ! i))))
        \<and> json_field (map asdict (files report) ! i) (ascii ''characters_after'')
            = Some (JInt (int (characters_after (files report ! i))))"
      using len by (simp add: json_field_asdict)
    ultimately have "\<exists>txt doc ents.
                  read_text L t'' (report_path cfg) (encoding cfg) = Inr txt
                \<and> json_loads L txt = Some doc
                \<and> json_field doc (ascii ''files'') = Some (JArr ents)
                \<and> length ents = n
                \<and> (\<forall>i<n.
                      json_field (ents ! i) (ascii ''changed'')
                        = Some (JBool (changed (files report ! i)))
                    \<and> json_field (ents ! i) (ascii ''characters_before'')
                        = Some (JInt (int (characters_before (files report ! i))))
                    \<and> json_field (ents ! i) (ascii ''characters_after'')
                        = Some (JInt (int (characters_after (files report ! i)))))"
      by blast
  }
  with b rb show ?thesis by blast
qed

text \<open>
  Claim C4: when \<open>process_files\<close> returns a report, the report has one entry per file
  of the batch, in order; the entry of a file says whether normalising the text read
  from the file changed it, and carries the length of the text read and the length of
  the normalised text; so for a text the normaliser leaves alone the entry says
  \<open>changed = False\<close> with equal counts.  In a dry run every file is read from the file
  system as it was at the start.  The report file \<open>write_report\<close> writes holds the
  encoded \<open>json.dumps\<close> of the payload; read back and parsed (decoding what the codec
  encoded, \<open>json.loads\<close> of what \<open>json.dumps\<close> gave) it has a \<open>files\<close> array with
  one object per file carrying these values.
\<close>

theorem file_report_entries:
  assumes "process_files L fls cfg dry t = (Inr report, t')"
  shows "length (files report) = length fls
   \<and> (\<forall>i<length fls. \<exists>original.
         read_text L (snd (process_files L (take i fls) cfg dry t)) (fls ! i) (encoding cfg)
           = Inr original
       \<and> changed (files report ! i) = (normalise_text L original \<noteq> original)
       \<and> characters_before (files report ! i) = length original
       \<and> characters_after (files report ! i) = length (normalise_text L original)
       \<and> (normalise_text L original = original \<longrightarrow>
            \<not> changed (files report ! i)
            \<and> characters_before (files report ! i) = characters_after (files report ! i)))
   \<and> (dry \<longrightarrow> (\<forall>i<length fls. snd (process_files L (take i fls) cfg dry t) = t))
   \<and> (\<forall>u t''. write_report L report cfg t' = (Inr u, t'') \<longrightarrow>
        (\<exists>b. read_bytes t'' (report_path cfg) = Inr b
           \<and> codec_encode L (encoding cfg) (json_dumps L (payload report)) = Inr b
           \<and> (codec_decode L (encoding cfg) b = Inr (json_dumps L (payload report)) \<longrightarrow>
               json_loads L (json_dumps L (payload report)) = Some (payload report) \<longrightarrow>
               (\<exists>txt doc ents.
                  read_text L t'' (report_path cfg) (encoding cfg) = Inr txt
                \<and> json_loads L txt = Some doc
                \<and> json_field doc (ascii ''files'') = Some (JArr ents)
                \<and> length ents = length fls
                \<and> (\<forall>i<length fls.
                      json_field (ents ! i) (ascii ''changed'')
                        = Some (JBool (changed (files report ! i)))
                    \<and> json_field (ents ! i) (ascii ''characters_before'')
                        = Some (JInt (int (characters_before (files report ! i))))
                    \<and> json_field (ents ! i) (ascii ''characters_after'')
                        = Some (JInt (int (characters_after (files report ! i)))))))))"
  apply (intro conjI allI impI)
     apply (rule process_files_length[OF assms])
    apply (erule process_files_entry[OF assms])
   apply (erule process_files_dry_prefix)
  apply (erule written_report_parsed[OF process_files_length[OF assms]])
  done

lemma strict_prefix_parent: "strict_prefix q p \<Longrightarrow> prefix q (parent p)"
proof -
  assume a: "strict_prefix q p"
  then obtain z zs where "p = q @ z # zs"
    by (auto simp: strict_prefix_def prefix_def) (metis list.exhaust append_Nil2)
  then have "butlast p = q @ butlast (z # zs)"
    by (simp add: butlast_append)
  then have "prefix q (butlast p)" by simp
  moreover from a have "prefix q p" by (simp add: strict_prefix_def)
  ultimately show ?thesis by (simp add: parent_def)
qed

lemma process_file_ancestors:
  assumes "process_file L cfg False p t = (Inr r, t')"
    and "strict_prefix q (output_path_of cfg p)"
  shows "stat t' q = Some KDir"
proof -
  from assms(1) obtain t1 c u
    where t1: "mkdir_parents t (parent (output_path_of cfg p)) = Inr t1"
      and w: "write_text L t1 (output_path_of cfg p) (normalise_text L c) (encoding cfg) = (Inr u, t')"
    by (auto simp: process_file_def Let_def output_path_of_def relative_to_def
        split: sum.splits prod.splits if_splits)
  from mkdir_parents_prefix_dir[OF t1 strict_prefix_parent[OF assms(2)]]
  have "stat t1 q = Some KDir" .
  moreover from assms(2) have "q \<noteq> output_path_of cfg p" by auto
  ultimately show ?thesis
    using write_text_frame[OF w] by simp
qed

lemma read_text_stat_cong:
  assumes "stat t1 p = stat t p \<or> (stat t p = None \<and> stat t1 p = Some KDir)"
    and "read_text L t1 p enc = Inr c"
  shows "read_text L t p enc = Inr c"
proof -
  from assms(2) obtain b where b: "read_bytes t1 p = Inr b" and d: "codec_decode L enc b = Inr c"
    by (auto simp: read_text_def split: sum.splits)
  from b have "stat t1 p = Some (KFile b)" by (simp add: read_bytes_stat)
  with assms(1) have "stat t p = Some (KFile b)" by auto
  then have "read_bytes t p = Inr b" by (simp add: read_bytes_stat)
  with d show ?thesis by (simp add: read_text_def)
qed

lemma loop_prefix:
  "process_files_loop L cfg dry fls rs t = (Inr rs', t') \<Longrightarrow>
     \<forall>p\<in>set fls. prefix (source_dir cfg) p"
proof (induction fls arbitrary: rs t)
  case Nil
  then show ?case by simp
next
  case (Cons p ps)
  from Cons.prems obtain r t1 where pf: "process_file L cfg dry p t = (Inr r, t1)"
    and l: "process_files_loop L cfg dry ps (rs @ [r]) t1 = (Inr rs', t')"
    by (auto split: prod.splits sum.splits)
  from process_file_Inr[OF pf] Cons.IH[OF l] show ?case by auto
qed

lemma output_path_of_inj:
  assumes "prefix (source_dir cfg) p" and "prefix (source_dir cfg) q"
    and "output_path_of cfg p = output_path_of cfg q"
  shows "p = q"
proof -
  from assms(3) have "drop (length (source_dir cfg)) p = drop (length (source_dir cfg)) q"
    by (simp add: output_path_of_def)
  with assms(1,2) show ?thesis
    by (auto simp: prefix_def)
qed

lemma loop_outputs:
  assumes "process_files_loop L cfg False fls rs t = (Inr rs', t')"
    and "output_path_of cfg ` set fls \<inter> set fls = {}"
  shows "\<forall>p\<in>set fls. \<exists>c b.
           read_text L t p (encoding cfg) = Inr c
         \<and> codec_encode L (encoding cfg) (normalise_text L c) = Inr b
         \<and> stat t' (output_path_of cfg p) = Some (KFile b)
         \<and> (\<forall>q. strict_prefix q (output_path_of cfg p) \<longrightarrow> stat t' q = Some KDir)"
  using assms
proof (induction fls arbitrary: rs t)
  case Nil
  then show ?case by simp
next
  case (Cons p ps)
  from Cons.prems(1) obtain r t1 where pf: "process_file L cfg False p t = (Inr r, t1)"
    and l: "process_files_loop L cfg False ps (rs @ [r]) t1 = (Inr rs', t')"
    by (auto split: prod.splits sum.splits)
  from Cons.prems(2) have nc: "output_path_of cfg ` set ps \<inter> set ps = {}"
    and np: "\<forall>q\<in>set (p # ps). q \<noteq> output_path_of cfg p"
    by auto
  note IH = Cons.IH[OF l nc]
  from process_file_Inr[OF pf] obtain c b
    where c: "read_text L t p (encoding cfg) = Inr c"
      and pp: "prefix (source_dir cfg) p"
      and b: "codec_encode L (encoding cfg) (normalise_text L c) = Inr b"
      and st: "stat t1 (output_path_of cfg p) = Some (KFile b)"
    by auto
  have readback: "read_text L t q (encoding cfg) = Inr c'"
    if "q \<in> set (p # ps)" and "read_text L t1 q (encoding cfg) = Inr c'" for q c'
    using read_text_stat_cong[OF process_file_frame[OF pf] that(2)] np that(1) by blast
  have anc: "\<forall>q. strict_prefix q (output_path_of cfg p) \<longrightarrow> stat t' q = Some KDir"
    using process_file_ancestors[OF pf] loop_keeps_dirs[OF l] by blast
  have first: "\<exists>c b. read_text L t p (encoding cfg) = Inr c
         \<and> codec_encode L (encoding cfg) (normalise_text L c) = Inr b
         \<and> stat t' (output_path_of cfg p) = Some (KFile b)
         \<and> (\<forall>q. strict_prefix q (output_path_of cfg p) \<longrightarrow> stat t' q = Some KDir)"
  proof (cases "p \<in> set ps")
    case True
    with IH obtain c' b' where c': "read_text L t1 p (encoding cfg) = Inr c'"
      and b': "codec_encode L (encoding cfg) (normalise_text L c') = Inr b'"
      and st': "stat t' (output_path_of cfg p) = Some (KFile b')"
      by blast
    from readback[OF _ c'] have "read_text L t p (encoding cfg) = Inr c'" by simp
    with b' st' anc show ?thesis by blast
  next
    case False
    have "output_path_of cfg p \<notin> output_path_of cfg ` set ps"
    proof
      assume "output_path_of cfg p \<in> output_path_of cfg ` set ps"
      then obtain q where q: "q \<in> set ps" "output_path_of cfg p = output_path_of cfg q"
        by auto
      from loop_prefix[OF l] q(1) have "prefix (source_dir cfg) q" by simp
      from output_path_of_inj[OF pp this q(2)] q(1) False show False by simp
    qed
    from loop_frame[OF l this] st have "stat t' (output_path_of cfg p) = Some (KFile b)"
      by auto
    with c b anc show ?thesis by blast
  qed
  have rest: "\<exists>c b. read_text L t q (encoding cfg) = Inr c
         \<and> codec_encode L (encoding cfg) (normalise_text L c) = Inr b
         \<and> stat t' (output_path_of cfg q) = Some (KFile b)
         \<and> (\<forall>q'. strict_prefix q' (output_path_of cfg q) \<longrightarrow> stat t' q' = Some KDir)"
    if "q \<in> set ps" for q
  proof -
    from IH that obtain c' b' where c': "read_text L t1 q (encoding cfg) = Inr c'"
      and r': "codec_encode L (encoding cfg) (normalise_text L c') = Inr b'"
        "stat t' (output_path_of cfg q) = Some (KFile b')"
        "\<forall>q'. strict_prefix q' (output_path_of cfg q) \<longrightarrow> stat t' q' = Some KDir"
      by blast
    from readback[OF _ c'] that have "read_text L t q (encoding cfg) = Inr c'" by simp
    with r' show ?thesis by blast
  qed
  from first rest show ?case by auto
qed

lemma process_files_frame:
  assumes "process_files L fls cfg dry t = (r, t')"
    and "p \<notin> output_path_of cfg ` set fls"
  shows "(stat t' p = Some (KFile b)) = (stat t p = Some (KFile b))"
proof -
  obtain r1 where l: "process_files_loop L cfg dry fls [] t = (r1, t')"
    using assms(1) by (auto simp: process_files_def split: prod.splits sum.splits)
  from loop_frame[OF l assms(2)] show ?thesis by auto
qed

lemma process_files_outputs:
  assumes "process_files L fls cfg dry t = (r, t')" and "\<not> dry" and "r = Inr report"
    and "output_path_of cfg ` set fls \<inter> set fls = {}"
  shows "\<forall>p\<in>set fls. \<exists>c b.
           read_text L t p (encoding cfg) = Inr c
         \<and> codec_encode L (encoding cfg) (normalise_text L c) = Inr b
         \<and> stat t' (output_path_of cfg p) = Some (KFile b)
         \<and> (\<forall>q. strict_prefix q (output_path_of cfg p) \<longrightarrow> stat t' q = Some KDir)"
proof -
  from assms(1,2,3) obtain rs where "process_files_loop L cfg False fls [] t = (Inr rs, t')"
    by (auto simp: process_files_Inr)
  from loop_outputs[OF this assms(4)] show ?thesis .
qed

lemma process_files_length_Inr:
  assumes "process_files L fls cfg dry t = (r, t')" and "r = Inr report"
  shows "length (files report) = length fls"
  using process_files_length[of L fls cfg dry t report t'] assms by simp

lemma process_files_dry_same:
  assumes "process_files L fls cfg dry t = (r, t')" and "dry"
  shows "t' = t"
  using process_files_dry[of L fls cfg t r t'] assms by simp

lemma process_files_turn:
  assumes "process_files L fls cfg dry t = (r, t')" and "\<not> dry" and "r = Inr report"
    and "i < length fls" and "fls ! i \<notin> set (drop (Suc i) fls)"
  shows "\<exists>c b.
           read_text L (snd (process_files L (take i fls) cfg dry t)) (fls ! i) (encoding cfg)
             = Inr c
         \<and> (fls ! i \<notin> output_path_of cfg ` set (take i fls) \<longrightarrow>
              read_text L t (fls ! i) (encoding cfg) = Inr c)
         \<and> codec_encode L (encoding cfg) (normalise_text L c) = Inr b
         \<and> stat t' (output_path_of cfg (fls ! i)) = Some (KFile b)
         \<and> (\<forall>q. strict_prefix q (output_path_of cfg (fls ! i)) \<longrightarrow> stat t' q = Some KDir)"
proof -
  from assms(2) have d: "dry = False" by simp
  from assms(1,3) obtain rs where l: "process_files_loop L cfg False fls [] t = (Inr rs, t')"
    unfolding d by (auto simp: process_files_Inr)
  have split: "fls = take i fls @ (fls ! i # drop (Suc i) fls)"
    using assms(4) by (simp add: id_take_nth_drop)
  from l have "process_files_loop L cfg False (take i fls @ (fls ! i # drop (Suc i) fls)) [] t
      = (Inr rs, t')"
    using split by simp
  then obtain rsi ti where li: "process_files_loop L cfg False (take i fls) [] t = (Inr rsi, ti)"
    and lr: "process_files_loop L cfg False (fls ! i # drop (Suc i) fls) rsi ti = (Inr rs, t')"
    unfolding loop_append by (auto split: prod.splits sum.splits)
  from lr obtain r1 tj where pf: "process_file L cfg False (fls ! i) ti = (Inr r1, tj)"
    and lt: "process_files_loop L cfg False (drop (Suc i) fls) (rsi @ [r1]) tj = (Inr rs, t')"
    by (auto split: prod.splits sum.splits)
  from li have ti: "snd (process_files L (take i fls) cfg dry t) = ti"
    unfolding d by (simp add: process_files_def)
  from process_file_Inr[OF pf] obtain c b
    where c: "read_text L ti (fls ! i) (encoding cfg) = Inr c"
      and pp: "prefix (source_dir cfg) (fls ! i)"
      and b: "codec_encode L (encoding cfg) (normalise_text L c) = Inr b"
      and st: "stat tj (output_path_of cfg (fls ! i)) = Some (KFile b)"
    by auto
  have "output_path_of cfg (fls ! i) \<notin> output_path_of cfg ` set (drop (Suc i) fls)"
  proof
    assume "output_path_of cfg (fls ! i) \<in> output_path_of cfg ` set (drop (Suc i) fls)"
    then obtain q where q: "q \<in> set (drop (Suc i) fls)"
      "output_path_of cfg (fls ! i) = output_path_of cfg q"
      by auto
    from loop_prefix[OF lt] q(1) have "prefix (source_dir cfg) q" by simp
    from output_path_of_inj[OF pp this q(2)] q(1) assms(5) show False by simp
  qed
  from loop_frame[OF lt this] st
  have fin: "stat t' (output_path_of cfg (fls ! i)) = Some (KFile b)"
    by auto
  have anc: "\<forall>q. strict_prefix q (output_path_of cfg (fls ! i)) \<longrightarrow> stat t' q = Some KDir"
    using process_file_ancestors[OF pf] loop_keeps_dirs[OF lt] by blast
  have init: "fls ! i \<notin> output_path_of cfg ` set (take i fls) \<longrightarrow>
      read_text L t (fls ! i) (encoding cfg) = Inr c"
  proof
    assume "fls ! i \<notin> output_path_of cfg ` set (take i fls)"
    from read_text_stat_cong[OF loop_frame[OF li this] c]
    show "read_text L t (fls ! i) (encoding cfg) = Inr c" .
  qed
  from c b fin anc init show ?thesis unfolding ti by blast
qed

text \<open>
  Claim C5, amended: \<open>process_files\<close> leaves the file system as it is when \<open>dry_run\<close>
  is true, whatever the outcome, and a report it returns has one entry per file.  In
  either mode a regular file at a path that is not the output path of a file of the
  batch is the same before and after, and no regular file appears at such a path: an
  input file is modified only if its path is also an output path.  When \<open>dry_run\<close> is
  false and the batch succeeds, then for each file the output path (the output directory
  joined with the file's path relative to the source directory) holds, under
  directories, the encoded normalised text of what was read from the file at its turn
  (its last turn, if it is listed more than once).  That is the text the file held at
  the start unless its path is the output path of a file processed before it; so it is
  for every file when no output path is a file of the batch.
\<close>

theorem process_files_writes:
  assumes "process_files L fls cfg dry t = (r, t')"
  shows "(dry \<longrightarrow> t' = t)
   \<and> (\<forall>report. r = Inr report \<longrightarrow> length (files report) = length fls)
   \<and> (\<forall>p b. p \<notin> output_path_of cfg ` set fls \<longrightarrow>
         (stat t' p = Some (KFile b)) = (stat t p = Some (KFile b)))
   \<and> (\<not> dry \<longrightarrow> (\<forall>report. r = Inr report \<longrightarrow>
         output_path_of cfg ` set fls \<inter> set fls = {} \<longrightarrow>
         (\<forall>p\<in>set fls. \<exists>c b.
             read_text L t p (encoding cfg) = Inr c
           \<and> codec_encode L (encoding cfg) (normalise_text L c) = Inr b
           \<and> stat t' (output_path_of cfg p) = Some (KFile b)
           \<and> (\<forall>q. strict_prefix q (output_path_of cfg p) \<longrightarrow> stat t' q = Some KDir))))
   \<and> (\<not> dry \<longrightarrow> (\<forall>report. r = Inr report \<longrightarrow>
         (\<forall>i<length fls. fls ! i \<notin> set (drop (Suc i) fls) \<longrightarrow>
           (\<exists>c b.
             read_text L (snd (process_files L (take i fls) cfg dry t)) (fls ! i) (encoding cfg)
               = Inr c
           \<and> (fls ! i \<notin> output_path_of cfg ` set (take i fls) \<longrightarrow>
                read_text L t (fls ! i) (encoding cfg) = Inr c)
           \<and> codec_encode L (encoding cfg) (normalise_text L c) = Inr b
           \<and> stat t' (output_path_of cfg (fls ! i)) = Some (KFile b)
           \<and> (\<forall>q. strict_prefix q (output_path_of cfg (fls ! i)) \<longrightarrow>
                 stat t' q = Some KDir)))))"
  apply (intro conjI allI impI)
      apply (erule process_files_dry_same[OF assms])
     apply (erule process_files_length_Inr[OF assms])
    apply (erule process_files_frame[OF assms])
   apply (erule (2) process_files_outputs[OF assms])
  apply (erule (3) process_files_turn[OF assms])
  done

section \<open>Properties of discovery\<close>

lemma lookup_append:
  "lookup t (p @ q) = (case lookup t p of None \<Rightarrow> None | Some n \<Rightarrow> lookup n q)"
proof (induction p arbitrary: t)
  case Nil
  show ?case by simp
next
  case (Cons c cs)
  show ?case
  proof (cases t)
    case (Dir es)
    with Cons show ?thesis by (simp split: option.splits)
  qed (cases q; simp)+
qed

lemma rglob_node_below:
  "p \<in> set (rglob_node pre n) \<Longrightarrow> \<exists>q. p = pre @ q \<and> q \<noteq> []"
proof (induction pre n arbitrary: p rule: rglob_node.induct)
  case (1 pre es)
  from "1.prems" obtain e where e: "e \<in> set es"
    and p: "p \<in> set ((if fnmatch_txt (fst e) then [pre @ [fst e]] else [])
                       @ rglob_node (pre @ [fst e]) (snd e))"
    by auto
  from p consider "p = pre @ [fst e]" | "p \<in> set (rglob_node (pre @ [fst e]) (snd e))"
    by (auto split: if_splits)
  then show ?case
  proof cases
    case 1
    then show ?thesis by simp
  next
    case 2
    from "1.IH"[OF e 2] obtain q where "p = (pre @ [fst e]) @ q" by blast
    then have "p = pre @ (fst e # q) \<and> fst e # q \<noteq> []" by simp
    then show ?thesis by blast
  qed
qed simp_all

lemma rglob_node_first:
  "p \<in> set (rglob_node (pre @ [c]) n) \<Longrightarrow> \<exists>q. p = pre @ c # q"
  using rglob_node_below[of p "pre @ [c]" n] by auto

lemma rglob_node_set:
  "wf_node n \<Longrightarrow>
     set (rglob_node pre n) =
       {pre @ q | q. q \<noteq> [] \<and> lookup n q \<noteq> None \<and> fnmatch_txt (last q)}"
proof (induction pre n rule: rglob_node.induct)
  case (1 pre es)
  from "1.prems" have dist: "distinct (map fst es)" and wf: "\<And>e. e \<in> set es \<Longrightarrow> wf_node (snd e)"
    by auto
  have mo: "map_of es c = Some m \<longleftrightarrow> (c, m) \<in> set es" for c m
    using dist by simp
  show ?case
  proof (intro set_eqI iffI)
    fix p assume "p \<in> set (rglob_node pre (Dir es))"
    then obtain e where e: "e \<in> set es"
      and p: "p \<in> set ((if fnmatch_txt (fst e) then [pre @ [fst e]] else [])
                         @ rglob_node (pre @ [fst e]) (snd e))"
      by auto
    from e have m: "map_of es (fst e) = Some (snd e)" by (simp add: mo)
    from p consider "fnmatch_txt (fst e)" "p = pre @ [fst e]"
      | "p \<in> set (rglob_node (pre @ [fst e]) (snd e))"
      by (auto split: if_splits)
    then show "p \<in> {pre @ q | q. q \<noteq> [] \<and> lookup (Dir es) q \<noteq> None \<and> fnmatch_txt (last q)}"
    proof cases
      case 1
      with m have "p = pre @ [fst e] \<and> [fst e] \<noteq> [] \<and> lookup (Dir es) [fst e] \<noteq> None
          \<and> fnmatch_txt (last [fst e])"
        by simp
      then show ?thesis by blast
    next
      case 2
      with "1.IH"[OF e wf[OF e]] obtain q where q: "p = (pre @ [fst e]) @ q" "q \<noteq> []"
        "lookup (snd e) q \<noteq> None" "fnmatch_txt (last q)"
        by auto
      with m have "p = pre @ (fst e # q) \<and> fst e # q \<noteq> [] \<and> lookup (Dir es) (fst e # q) \<noteq> None
          \<and> fnmatch_txt (last (fst e # q))"
        by simp
      then show ?thesis by blast
    qed
  next
    fix p assume "p \<in> {pre @ q | q. q \<noteq> [] \<and> lookup (Dir es) q \<noteq> None \<and> fnmatch_txt (last q)}"
    then obtain c cs where p: "p = pre @ c # cs" and l: "lookup (Dir es) (c # cs) \<noteq> None"
      and f: "fnmatch_txt (last (c # cs))"
      by (auto simp: neq_Nil_conv)
    from l obtain m where m: "map_of es c = Some m" and lm: "lookup m cs \<noteq> None"
      by (auto split: option.splits)
    from m have e: "(c, m) \<in> set es" by (simp add: mo)
    have "p \<in> set ((if fnmatch_txt c then [pre @ [c]] else []) @ rglob_node (pre @ [c]) m)"
    proof (cases cs)
      case Nil
      with p f show ?thesis by simp
    next
      case (Cons d ds)
      with lm f have "(pre @ [c]) @ cs \<in> {(pre @ [c]) @ q | q. q \<noteq> [] \<and> lookup m q \<noteq> None
          \<and> fnmatch_txt (last q)}"
        by auto
      with "1.IH"[OF e, simplified, OF wf[OF e, simplified]] p show ?thesis
        by simp
    qed
    with e show "p \<in> set (rglob_node pre (Dir es))"
      by force
  qed
qed (auto simp: neq_Nil_conv)

lemma distinct_concat_map:
  assumes "distinct (map k xs)"
    and "\<And>x. x \<in> set xs \<Longrightarrow> distinct (f x)"
    and "\<And>x p. x \<in> set xs \<Longrightarrow> p \<in> set (f x) \<Longrightarrow> g p = k x"
  shows "distinct (concat (map f xs))"
  using assms
proof (induction xs)
  case Nil
  show ?case by simp
next
  case (Cons x xs)
  have "set (f x) \<inter> set (concat (map f xs)) = {}"
  proof (rule ccontr)
    assume "set (f x) \<inter> set (concat (map f xs)) \<noteq> {}"
    then obtain p y where p: "p \<in> set (f x)" "y \<in> set xs" "p \<in> set (f y)"
      by auto
    from Cons.prems(3)[of x p] Cons.prems(3)[of y p] p have "k x = k y" by simp
    with p(2) Cons.prems(1) show False by force
  qed
  moreover have "distinct (f x)"
    using Cons.prems(2) by simp
  moreover have "distinct (concat (map f xs))"
    using Cons.IH Cons.prems by simp
  ultimately show ?case by simp
qed

lemma rglob_node_distinct: "wf_node n \<Longrightarrow> distinct (rglob_node pre n)"
proof (induction pre n rule: rglob_node.induct)
  case (1 pre es)
  define f where "f = (\<lambda>e. (if fnmatch_txt (fst e) then [pre @ [fst e]] else [])
                 @ rglob_node (pre @ [fst e]) (snd e))"
  have piece: "distinct (f e)" if "e \<in> set es" for e
  proof -
    from that "1.prems" have "wf_node (snd e)" by simp
    from "1.IH"[OF that this] rglob_node_below[of "pre @ [fst e]" "pre @ [fst e]" "snd e"]
    show ?thesis by (auto simp: f_def)
  qed
  have first: "p ! length pre = fst e" if "e \<in> set es" "p \<in> set (f e)" for p e
    using that(2) rglob_node_first[of p pre "fst e" "snd e"]
    by (auto simp: f_def nth_append split: if_splits)
  from "1.prems" have "distinct (map fst es)" by simp
  from distinct_concat_map[of fst es f "\<lambda>p. p ! length pre", OF this piece first]
  show ?case by (simp add: f_def)
qed simp_all

lemma wf_node_lookup: "wf_node t \<Longrightarrow> lookup t p = Some n \<Longrightarrow> wf_node n"
proof (induction p arbitrary: t)
  case Nil
  then show ?case by simp
next
  case (Cons c cs)
  from Cons.prems(2) obtain es m where t: "t = Dir es" and m: "map_of es c = Some m"
    and l: "lookup m cs = Some n"
    by (cases t) (auto split: option.splits)
  from m have "(c, m) \<in> set es" by (rule map_of_SomeD)
  with Cons.prems(1) t have "wf_node m" by auto
  from Cons.IH[OF this l] show ?case .
qed

lemma rglob_set:
  assumes "wf_node t"
  shows "set (rglob t d) = {p. strict_prefix d p \<and> lookup t p \<noteq> None \<and> fnmatch_txt (last p)}"
proof (cases "lookup t d")
  case None
  then have "lookup t p = None" if "strict_prefix d p" for p
    using that by (auto simp: strict_prefix_def prefix_def lookup_append)
  with None show ?thesis by (auto simp: rglob_def)
next
  case (Some n)
  have eq: "strict_prefix d p \<longleftrightarrow> (\<exists>q. p = d @ q \<and> q \<noteq> [])" for p
    by (auto simp: strict_prefix_def prefix_def)
  from rglob_node_set[OF wf_node_lookup[OF assms Some], of d] Some show ?thesis
    by (auto simp: rglob_def eq lookup_append)
qed

lemma rglob_distinct: "wf_node t \<Longrightarrow> distinct (rglob t d)"
  by (auto simp: rglob_def dest: wf_node_lookup rglob_node_distinct split: option.splits)

text \<open>
  Claim C6, amended: in a file system whose directories hold each name once,
  \<open>gather_files\<close> returns exactly the paths strictly below the source directory whose
  last part ends in \<open>.txt\<close> and that are regular files, each once, sorted;
  directories and other nodes are not among them.  The order is the order of \<open>Path\<close>
  objects: lexicographic on the sequence of parts of the full path, each part compared
  as a string, code point by code point.  It is not the order of the full paths as
  strings.
\<close>

theorem gather_files_spec:
  assumes "wf_node t"
  shows "set (gather_files t d) = {p. strict_prefix d p \<and> fnmatch_txt (last p) \<and> is_file t p}
   \<and> distinct (gather_files t d)
   \<and> sorted (gather_files t d)
   \<and> (\<forall>p\<in>set (gather_files t d). \<not> is_dir t p \<and> stat t p \<noteq> Some KSpecial)"
proof -
  have "is_file t p \<Longrightarrow> lookup t p \<noteq> None" for p
    by (auto simp: is_file_def split: option.splits)
  then have "set (gather_files t d) = {p. strict_prefix d p \<and> fnmatch_txt (last p) \<and> is_file t p}"
    by (auto simp: gather_files_def rglob_set[OF assms])
  moreover have "distinct (gather_files t d)"
    by (simp add: gather_files_def rglob_distinct[OF assms])
  moreover have "sorted (gather_files t d)"
    by (simp add: gather_files_def)
  moreover have "\<forall>p\<in>set (gather_files t d). \<not> is_dir t p \<and> stat t p \<noteq> Some KSpecial"
    by (auto simp: gather_files_def is_file_stat is_dir_stat)
  ultimately show ?thesis by blast
qed

section \<open>Properties of the command line\<close>

lemma print_fields [simp]:
  "disk (print m w) = disk w" "stdin (print m w) = stdin w" "stdout (print m w) = stdout w @ [m]"
  by (simp_all add: print_def)

lemma input_disk: "input m w = (r, w') \<Longrightarrow> disk w' = disk w"
  by (auto simp: input_def split: list.splits)

lemma prompt_yes_no_disk: "prompt_yes_no L q d w = (r, w') \<Longrightarrow> disk w' = disk w"
  by (auto simp: prompt_yes_no_def Let_def split: prod.splits sum.splits if_splits
      dest: input_disk)

lemma main_prompts_disk:
  assumes "main_prompts L a w = (r, w')"
  shows "disk w' = disk w"
proof (cases "interactive a")
  case False
  with assms show ?thesis by (auto simp: main_prompts_def)
next
  case True
  obtain r1 w1 where p1: "prompt_yes_no L AskRunNow True w = (r1, w1)"
    by (cases "prompt_yes_no L AskRunNow True w")
  obtain r2 w2 where p2: "prompt_yes_no L AskDryRun (dry_run a) w1 = (r2, w2)"
    by (cases "prompt_yes_no L AskDryRun (dry_run a) w1")
  from prompt_yes_no_disk[OF p1] have d1: "disk w1 = disk w" .
  from prompt_yes_no_disk[OF p2] d1 have d2: "disk w2 = disk w" by simp
  from assms True p1 p2 have "w' = w1 \<or> w' = print Cancelled w1 \<or> w' = w2"
    by (auto simp: main_prompts_def split: sum.splits if_splits)
  with d1 d2 show ?thesis by auto
qed

lemma main_prompts_noninteractive:
  "\<not> interactive a \<Longrightarrow>
     main_prompts L a w = (Inr (Some (dry_run a)), print InfoNonInteractive w)"
  by (simp add: main_prompts_def)

lemma prompt_yes_no_declined:
  assumes "stdin w = l # ls" and "str_lower L (str_strip l) \<noteq> []"
    and "str_lower L (str_strip l) \<notin> {ascii ''y'', ascii ''yes''}"
  shows "prompt_yes_no L q d w = (Inr False, (print (Prompt q d) w)\<lparr>stdin := ls\<rparr>)"
  using assms by (simp add: prompt_yes_no_def input_def Let_def)

lemma main_prompts_declined:
  assumes "interactive a" and "stdin w = l # ls" and "str_lower L (str_strip l) \<noteq> []"
    and "str_lower L (str_strip l) \<notin> {ascii ''y'', ascii ''yes''}"
  shows "main_prompts L a w
     = (Inr None, print Cancelled ((print (Prompt AskRunNow True) w)\<lparr>stdin := ls\<rparr>))"
  using assms(1) prompt_yes_no_declined[OF assms(2,3,4)]
  by (simp add: main_prompts_def)

lemma main_cases:
  "main L R a w =
     (case ensure_directories (main_config R a) (disk w) of
        (Inl e, t1) \<Rightarrow> (Inl e, w\<lparr>disk := t1\<rparr>)
      | (Inr u, t1) \<Rightarrow>
          (case main_prompts L a (print Step10 (print STEP_TITLE (print HEADER (w\<lparr>disk := t1\<rparr>)))) of
             (Inl e, w2) \<Rightarrow> (Inl e, w2)
           | (Inr None, w2) \<Rightarrow> (Inr 0, w2)
           | (Inr (Some dry), w2) \<Rightarrow> main_run L (main_config R a) dry w2))"
  unfolding main_def Let_def by simp

lemma main_config_report_path:
  "report_path (main_config R a) = output_dir (main_config R a) @ [ascii ''report.json'']"
  by (simp add: main_config_def DEFAULT_CONFIG_def split: option.splits)

lemma parent_report_json: "parent (p @ [ascii ''report.json'']) = p"
  by (cases p) (simp_all add: parent_def is_root_def ascii_def)

lemma main_config_encoding: "encoding (main_config R a) = ''utf-8''"
  by (simp add: main_config_def DEFAULT_CONFIG_def split: option.splits)










lemma main_run_no_source:
  assumes "\<not> path_exists (disk w) (source_dir cfg) \<or> \<not> is_dir (disk w) (source_dir cfg)"
  shows "main_run L cfg dry w
     = (Inr 1, print HintPrepareSource (print (ErrorSourceDir (source_dir cfg)) w))"
  using assms by (auto simp: main_run_def)

lemma main_run_no_files:
  assumes "path_exists (disk w) (source_dir cfg)" and "is_dir (disk w) (source_dir cfg)"
    and "gather_files (disk w) (source_dir cfg) = []"
  shows "main_run L cfg dry w = (Inr 0, print (WarnNoFiles (source_dir cfg)) w)"
  using assms by (simp add: main_run_def)

lemma main_continues:
  assumes "ensure_directories (main_config R a) (disk w) = (Inr u, t1)"
    and "main_prompts L a (print Step10 (print STEP_TITLE (print HEADER (w\<lparr>disk := t1\<rparr>))))
           = (Inr (Some dry), w2)"
  shows "main L R a w = main_run L (main_config R a) dry w2" and "disk w2 = t1"
  using assms main_prompts_disk[OF assms(2)] by (simp_all add: main_cases)

lemma main_no_source:
  assumes "ensure_directories (main_config R a) (disk w) = (Inr u, t1)"
    and "main_prompts L a (print Step10 (print STEP_TITLE (print HEADER (w\<lparr>disk := t1\<rparr>))))
           = (Inr (Some dry), w2)"
    and "\<not> path_exists t1 (source_dir (main_config R a))
         \<or> \<not> is_dir t1 (source_dir (main_config R a))"
  shows "main L R a w
     = (Inr 1, print HintPrepareSource (print (ErrorSourceDir (source_dir (main_config R a))) w2))"
  using main_continues[OF assms(1,2)] assms(3) main_run_no_source[of w2 "main_config R a" L dry]
  by simp

lemma main_no_files:
  assumes "ensure_directories (main_config R a) (disk w) = (Inr u, t1)"
    and "main_prompts L a (print Step10 (print STEP_TITLE (print HEADER (w\<lparr>disk := t1\<rparr>))))
           = (Inr (Some dry), w2)"
    and "path_exists t1 (source_dir (main_config R a)) \<and> is_dir t1 (source_dir (main_config R a))
         \<and> gather_files t1 (source_dir (main_config R a)) = []"
  shows "main L R a w = (Inr 0, print (WarnNoFiles (source_dir (main_config R a))) w2)"
  using main_continues[OF assms(1,2)] assms(3) main_run_no_files[of w2 "main_config R a" L dry]
  by simp

lemma ensure_directories_files:
  assumes "ensure_directories cfg t = (Inr u, t1)"
  shows "(stat t1 q = Some (KFile b)) = (stat t q = Some (KFile b))"
  unfolding ensure_directories_stat[OF assms] by simp

lemma ensure_directories_source:
  assumes "ensure_directories (main_config R a) t = (Inr u, t1)"
    and "\<not> prefix (source_dir (main_config R a)) (output_dir (main_config R a))"
  shows "is_dir t1 (source_dir (main_config R a)) = is_dir t (source_dir (main_config R a))"
  using assms(2) unfolding is_dir_stat ensure_directories_stat[OF assms(1)]
  by (simp add: main_config_report_path parent_report_json)

lemma prompt_yes_no_eof:
  "stdin w = [] \<Longrightarrow> prompt_yes_no L q d w = (Inl EOFError, print (Prompt q d) w)"
  by (simp add: prompt_yes_no_def input_def)

lemma prompt_yes_no_answered:
  "stdin w = l # ls \<Longrightarrow>
     prompt_yes_no L q d w
       = (Inr (if str_lower L (str_strip l) = [] then d
               else str_lower L (str_strip l) \<in> {ascii ''y'', ascii ''yes''}),
          (print (Prompt q d) w)\<lparr>stdin := ls\<rparr>)"
  by (simp add: prompt_yes_no_def input_def Let_def)

lemma prompt_yes_no_accepted:
  assumes "stdin w = l # ls"
    and "str_lower L (str_strip l) \<in> {[], ascii ''y'', ascii ''yes''}"
  shows "prompt_yes_no L q True w = (Inr True, (print (Prompt q True) w)\<lparr>stdin := ls\<rparr>)"
  using assms(2) unfolding prompt_yes_no_answered[OF assms(1)] by auto

lemma main_prompts_answered:
  assumes "interactive a" and "stdin w = l1 # l2 # ls"
    and "str_lower L (str_strip l1) \<in> {[], ascii ''y'', ascii ''yes''}"
  shows "\<exists>dry w2. main_prompts L a w = (Inr (Some dry), w2)"
proof -
  let ?w1 = "(print (Prompt AskRunNow True) w)\<lparr>stdin := l2 # ls\<rparr>"
  have "stdin ?w1 = l2 # ls" by simp
  from prompt_yes_no_answered[OF this, of L AskDryRun "dry_run a"]
    prompt_yes_no_accepted[OF assms(2,3), of AskRunNow] assms(1)
  show ?thesis by (simp add: main_prompts_def)
qed

lemma main_prompts_eof_first:
  assumes "interactive a" and "stdin w = []"
  shows "main_prompts L a w = (Inl EOFError, print (Prompt AskRunNow True) w)"
  using assms(1) prompt_yes_no_eof[OF assms(2), of L AskRunNow True]
  by (simp add: main_prompts_def)

lemma main_prompts_eof_second:
  assumes "interactive a" and "stdin w = [l1]"
    and "str_lower L (str_strip l1) \<in> {[], ascii ''y'', ascii ''yes''}"
  shows "main_prompts L a w
     = (Inl EOFError,
        print (Prompt AskDryRun (dry_run a)) ((print (Prompt AskRunNow True) w)\<lparr>stdin := []\<rparr>))"
proof -
  let ?w1 = "(print (Prompt AskRunNow True) w)\<lparr>stdin := []\<rparr>"
  have "stdin ?w1 = []" by simp
  from prompt_yes_no_eof[OF this, of L AskDryRun "dry_run a"]
    prompt_yes_no_accepted[OF assms(2,3), of AskRunNow] assms(1)
  show ?thesis by (simp add: main_prompts_def)
qed

lemma main_answered:
  assumes "ensure_directories (main_config R a) (disk w) = (Inr u, t1)"
    and "interactive a" and "stdin w = l1 # l2 # ls"
    and "str_lower L (str_strip l1) \<in> {[], ascii ''y'', ascii ''yes''}"
  shows "\<exists>dry w2. main_prompts L a (print Step10 (print STEP_TITLE (print HEADER (w\<lparr>disk := t1\<rparr>))))
           = (Inr (Some dry), w2)"
proof -
  have "stdin (print Step10 (print STEP_TITLE (print HEADER (w\<lparr>disk := t1\<rparr>)))) = l1 # l2 # ls"
    using assms(3) by simp
  from main_prompts_answered[OF assms(2) this assms(4)] show ?thesis .
qed

lemma main_eof_first:
  assumes "ensure_directories (main_config R a) (disk w) = (Inr u, t1)"
    and "interactive a" and "stdin w = []"
  shows "main L R a w
     = (Inl EOFError,
        print (Prompt AskRunNow True)
          (print Step10 (print STEP_TITLE (print HEADER (w\<lparr>disk := t1\<rparr>)))))"
proof -
  have "stdin (print Step10 (print STEP_TITLE (print HEADER (w\<lparr>disk := t1\<rparr>)))) = []"
    using assms(3) by simp
  from main_prompts_eof_first[OF assms(2) this, of L] assms(1) show ?thesis
    by (simp add: main_cases)
qed

lemma main_eof_second:
  assumes "ensure_directories (main_config R a) (disk w) = (Inr u, t1)"
    and "interactive a" and "stdin w = [l1]"
    and "str_lower L (str_strip l1) \<in> {[], ascii ''y'', ascii ''yes''}"
  shows "main L R a w
     = (Inl EOFError,
        print (Prompt AskDryRun (dry_run a))
          ((print (Prompt AskRunNow True)
             (print Step10 (print STEP_TITLE (print HEADER (w\<lparr>disk := t1\<rparr>)))))\<lparr>stdin := []\<rparr>))"
proof -
  have "stdin (print Step10 (print STEP_TITLE (print HEADER (w\<lparr>disk := t1\<rparr>)))) = [l1]"
    using assms(3) by simp
  from main_prompts_eof_second[OF assms(2) this assms(4)] assms(1) show ?thesis
    by (simp add: main_cases)
qed

text \<open>
  Claim C7, amended: when \<open>ensure_directories\<close> has returned and the prompts, if any,
  let the run go on, then \<open>main\<close> returns 1 if the source directory does not exist or
  is not a directory at that moment, and 0 if it is a directory in which discovery finds
  no file.  In both cases the file system stays as \<open>ensure_directories\<close> left it, which
  has the regular files it had at the start: no report file is written.  The prompts let
  the run go on always without \<open>--interactive\<close>, and with it when two lines are waiting
  on standard input and the first is empty, \<open>y\<close> or \<open>yes\<close> (after \<open>strip\<close> and
  \<open>lower\<close>).  With \<open>--interactive\<close> and standard input at its end, at the first
  prompt or at the second, \<open>main\<close> raises \<open>EOFError\<close> instead, whatever the source
  directory is.  The source directory is as at the start unless it lies on the way to
  the output directory.
\<close>

theorem main_without_source_or_files:
  assumes "ensure_directories (main_config R a) (disk w) = (Inr u, t1)"
  shows "(\<forall>dry w2.
        main_prompts L a (print Step10 (print STEP_TITLE (print HEADER (w\<lparr>disk := t1\<rparr>))))
           = (Inr (Some dry), w2) \<longrightarrow>
          (\<not> path_exists t1 (source_dir (main_config R a))
              \<or> \<not> is_dir t1 (source_dir (main_config R a)) \<longrightarrow>
            main L R a w
              = (Inr 1, print HintPrepareSource
                          (print (ErrorSourceDir (source_dir (main_config R a))) w2)))
        \<and> (path_exists t1 (source_dir (main_config R a))
              \<and> is_dir t1 (source_dir (main_config R a))
              \<and> gather_files t1 (source_dir (main_config R a)) = [] \<longrightarrow>
            main L R a w = (Inr 0, print (WarnNoFiles (source_dir (main_config R a))) w2))
        \<and> disk w2 = t1)
   \<and> (\<not> interactive a \<longrightarrow>
        main_prompts L a (print Step10 (print STEP_TITLE (print HEADER (w\<lparr>disk := t1\<rparr>))))
          = (Inr (Some (dry_run a)),
             print InfoNonInteractive
               (print Step10 (print STEP_TITLE (print HEADER (w\<lparr>disk := t1\<rparr>))))))
   \<and> (interactive a \<longrightarrow>
        (\<forall>l1 l2 ls. stdin w = l1 # l2 # ls \<longrightarrow>
           str_lower L (str_strip l1) \<in> {[], ascii ''y'', ascii ''yes''} \<longrightarrow>
           (\<exists>dry w2.
              main_prompts L a (print Step10 (print STEP_TITLE (print HEADER (w\<lparr>disk := t1\<rparr>))))
                = (Inr (Some dry), w2))))
   \<and> (interactive a \<longrightarrow> stdin w = [] \<longrightarrow>
        main L R a w
          = (Inl EOFError,
             print (Prompt AskRunNow True)
               (print Step10 (print STEP_TITLE (print HEADER (w\<lparr>disk := t1\<rparr>))))))
   \<and> (interactive a \<longrightarrow>
        (\<forall>l1. stdin w = [l1] \<longrightarrow>
           str_lower L (str_strip l1) \<in> {[], ascii ''y'', ascii ''yes''} \<longrightarrow>
           main L R a w
             = (Inl EOFError,
                print (Prompt AskDryRun (dry_run a))
                  ((print (Prompt AskRunNow True)
                     (print Step10 (print STEP_TITLE (print HEADER (w\<lparr>disk := t1\<rparr>)))))\<lparr>stdin := []\<rparr>))))
   \<and> (\<forall>q b. (stat t1 q = Some (KFile b)) = (stat (disk w) q = Some (KFile b)))
   \<and> (\<not> prefix (source_dir (main_config R a)) (output_dir (main_config R a)) \<longrightarrow>
        is_dir t1 (source_dir (main_config R a)) = is_dir (disk w) (source_dir (main_config R a)))"
  apply (intro conjI allI impI)
          apply (erule (1) main_no_source[OF assms])
         apply (erule (1) main_no_files[OF assms])
        apply (erule main_continues(2)[OF assms])
       apply (erule main_prompts_noninteractive)
      apply (erule (2) main_answered[OF assms])
     apply (erule (1) main_eof_first[OF assms])
    apply (erule (2) main_eof_second[OF assms])
   apply (rule ensure_directories_files[OF assms])
  apply (erule ensure_directories_source[OF assms])
  done

lemma cancelled_world:
  "print Cancelled
     ((print (Prompt AskRunNow True)
        (print Step10 (print STEP_TITLE (print HEADER (w\<lparr>disk := t1\<rparr>)))))\<lparr>stdin := ls\<rparr>)
   = \<lparr>disk = t1, stdin = ls,
      stdout = stdout w @ [HEADER, STEP_TITLE, Step10, Prompt AskRunNow True, Cancelled]\<rparr>"
  by (cases w) (simp add: print_def)

lemma main_cancelled:
  assumes "interactive a"
    and "ensure_directories (main_config R a) (disk w) = (Inr u, t1)"
    and "stdin w = l # ls"
    and "str_lower L (str_strip l) \<noteq> []"
    and "str_lower L (str_strip l) \<notin> {ascii ''y'', ascii ''yes''}"
  shows "main L R a w
     = (Inr 0, \<lparr>disk = t1, stdin = ls,
                stdout = stdout w @ [HEADER, STEP_TITLE, Step10, Prompt AskRunNow True, Cancelled]\<rparr>)"
proof -
  let ?w1 = "print Step10 (print STEP_TITLE (print HEADER (w\<lparr>disk := t1\<rparr>)))"
  have "stdin ?w1 = l # ls" using assms(3) by simp
  from main_prompts_declined[OF assms(1) this assms(4,5)] assms(2) show ?thesis
    by (simp add: main_cases cancelled_world)
qed

lemma ensure_directories_main_stat:
  assumes "ensure_directories (main_config R a) t = (Inr u, t1)"
  shows "stat t1 q =
           (if stat t q = None \<and> prefix q (output_dir (main_config R a)) then Some KDir
            else stat t q)"
  unfolding ensure_directories_stat[OF assms]
  by (simp add: main_config_report_path parent_report_json)

lemma ensure_directories_report:
  assumes "ensure_directories (main_config R a) t = (Inr u, t1)"
  shows "stat t1 (report_path (main_config R a)) = stat t (report_path (main_config R a))"
  unfolding ensure_directories_main_stat[OF assms]
  by (simp add: main_config_report_path)

text \<open>
  Claim C8, amended: in interactive mode, when \<open>ensure_directories\<close> has returned and the
  answer to the first prompt is neither empty nor \<open>y\<close> nor \<open>yes\<close> (after \<open>strip\<close> and
  \<open>lower\<close>), \<open>main\<close> returns 0 having printed the header, the first prompt and the
  cancellation message and taken one line of input.  No file is read or written and no
  report is produced; the one effect on the file system is that of
  \<open>ensure_directories\<close>, which ran before the prompt: the output directory, with the
  directories on the way to it, exists afterwards.
\<close>

theorem main_cancelled_run:
  assumes "interactive a"
    and "ensure_directories (main_config R a) (disk w) = (Inr u, t1)"
    and "stdin w = l # ls"
    and "str_lower L (str_strip l) \<noteq> []"
    and "str_lower L (str_strip l) \<notin> {ascii ''y'', ascii ''yes''}"
  shows "main L R a w
           = (Inr 0, \<lparr>disk = t1, stdin = ls,
                stdout = stdout w @ [HEADER, STEP_TITLE, Step10, Prompt AskRunNow True, Cancelled]\<rparr>)
   \<and> (\<forall>q. stat t1 q =
           (if stat (disk w) q = None \<and> prefix q (output_dir (main_config R a)) then Some KDir
            else stat (disk w) q))
   \<and> stat t1 (report_path (main_config R a)) = stat (disk w) (report_path (main_config R a))
   \<and> is_dir t1 (output_dir (main_config R a))"
  apply (intro conjI allI)
     apply (rule main_cancelled[OF assms])
    apply (rule ensure_directories_main_stat[OF assms(2)])
   apply (rule ensure_directories_report[OF assms(2)])
  apply (rule ensure_directories_dirs(1)[OF assms(2)])
  done

lemma rglob_node_matches:
  "p \<in> set (rglob_node pre n) \<Longrightarrow> \<exists>q. p = pre @ q \<and> q \<noteq> [] \<and> fnmatch_txt (last q)"
proof (induction pre n arbitrary: p rule: rglob_node.induct)
  case (1 pre es)
  from "1.prems" obtain e where e: "e \<in> set es"
    and p: "p \<in> set ((if fnmatch_txt (fst e) then [pre @ [fst e]] else [])
                       @ rglob_node (pre @ [fst e]) (snd e))"
    by auto
  from p consider "fnmatch_txt (fst e)" "p = pre @ [fst e]"
    | "p \<in> set (rglob_node (pre @ [fst e]) (snd e))"
    by (auto split: if_splits)
  then show ?case
  proof cases
    case 1
    then have "p = pre @ [fst e] \<and> [fst e] \<noteq> [] \<and> fnmatch_txt (last [fst e])" by simp
    then show ?thesis by blast
  next
    case 2
    from "1.IH"[OF e 2] obtain q where "p = (pre @ [fst e]) @ q" "q \<noteq> []" "fnmatch_txt (last q)"
      by blast
    then have "p = pre @ (fst e # q) \<and> fst e # q \<noteq> [] \<and> fnmatch_txt (last (fst e # q))"
      by simp
    then show ?thesis by blast
  qed
qed simp_all

lemma gather_files_matches:
  assumes "p \<in> set (gather_files t d)"
  shows "\<exists>q. p = d @ q \<and> q \<noteq> [] \<and> fnmatch_txt (last q)"
proof -
  from assms obtain n where "p \<in> set (rglob_node d n)"
    by (auto simp: gather_files_def rglob_def split: option.splits)
  from rglob_node_matches[OF this] show ?thesis .
qed

lemma not_txt_report: "\<not> fnmatch_txt (ascii ''report.json'')"
  by (simp add: fnmatch_txt_def suffix_to_prefix ascii_def)

lemma gathered_output_not_report:
  assumes "p \<in> set (gather_files t (source_dir (main_config R a)))"
  shows "output_path_of (main_config R a) p \<noteq> report_path (main_config R a)"
proof
  assume eq: "output_path_of (main_config R a) p = report_path (main_config R a)"
  from gather_files_matches[OF assms] obtain q
    where q: "p = source_dir (main_config R a) @ q" "q \<noteq> []" "fnmatch_txt (last q)"
    by blast
  from q(1) have "output_path_of (main_config R a) p = output_dir (main_config R a) @ q"
    by (simp add: output_path_of_def)
  with eq have "output_dir (main_config R a) @ q
      = output_dir (main_config R a) @ [ascii ''report.json'']"
    by (simp add: main_config_report_path)
  then have "q = [ascii ''report.json'']" by simp
  with q(3) not_txt_report show False by simp
qed

lemma process_files_read_failure:
  assumes "process_files L pre cfg dry t = (Inr rep, t1)"
    and "read_text L t1 p (encoding cfg) = Inl e"
  shows "process_files L (pre @ p # rest) cfg dry t = (Inl e, t1)"
proof -
  from assms(1) obtain rs where "process_files_loop L cfg dry pre [] t = (Inr rs, t1)"
    by (auto simp: process_files_Inr)
  with process_file_read_failure[OF assms(2), of dry] show ?thesis
    by (simp add: process_files_def loop_append)
qed

lemma main_processing_failure:
  assumes "ensure_directories (main_config R a) (disk w) = (Inr u, t1)"
    and "main_prompts L a (print Step10 (print STEP_TITLE (print HEADER (w\<lparr>disk := t1\<rparr>))))
           = (Inr (Some dr), w2)"
    and "path_exists t1 (source_dir (main_config R a)) \<and> is_dir t1 (source_dir (main_config R a))"
    and "process_files L (gather_files t1 (source_dir (main_config R a))) (main_config R a) dr t1
           = (Inl er, t3)"
  shows "main L R a w = (Inl er, w2\<lparr>disk := t3\<rparr>)
       \<and> (\<forall>b. (stat t3 (report_path (main_config R a)) = Some (KFile b))
              = (stat (disk w) (report_path (main_config R a)) = Some (KFile b)))"
proof -
  note m = main_continues[OF assms(1,2)]
  have ne: "gather_files t1 (source_dir (main_config R a)) \<noteq> []"
    using assms(4) by (auto simp: process_files_def)
  have "main_run L (main_config R a) dr w2 = (Inl er, w2\<lparr>disk := t3\<rparr>)"
    using assms(3,4) ne m(2) by (simp add: main_run_def Let_def)
  with m(1) have 1: "main L R a w = (Inl er, w2\<lparr>disk := t3\<rparr>)" by simp
  have "report_path (main_config R a)
      \<notin> output_path_of (main_config R a) ` set (gather_files t1 (source_dir (main_config R a)))"
  proof
    assume "report_path (main_config R a)
      \<in> output_path_of (main_config R a) ` set (gather_files t1 (source_dir (main_config R a)))"
    then obtain x where "x \<in> set (gather_files t1 (source_dir (main_config R a)))"
      "output_path_of (main_config R a) x = report_path (main_config R a)"
      by auto
    with gathered_output_not_report[of x t1 R a] show False by simp
  qed
  from process_files_frame[OF assms(4) this] ensure_directories_files[OF assms(1)]
  have "\<forall>b. (stat t3 (report_path (main_config R a)) = Some (KFile b))
              = (stat (disk w) (report_path (main_config R a)) = Some (KFile b))"
    by simp
  with 1 show ?thesis by simp
qed

text \<open>
  Claim C9: when the files before \<open>p\<close> have been processed and reading \<open>p\<close> fails,
  \<open>process_files\<close> raises that error and leaves the file system as it was after the
  files before \<open>p\<close>, whatever files follow: they are not processed.  In \<open>main\<close> the
  error of \<open>process_files\<close> is the outcome of the run; \<open>write_report\<close> is not reached,
  and the report path holds a regular file afterwards only if it held that file before
  the run.
\<close>

theorem read_failure_aborts_run:
  "(\<forall>rep t1. process_files L pre cfg dry t = (Inr rep, t1) \<longrightarrow>
        read_text L t1 p (encoding cfg) = Inl e \<longrightarrow>
        process_files L (pre @ p # rest) cfg dry t = (Inl e, t1))
   \<and> (\<forall>u t1 dr w2 er t3.
        ensure_directories (main_config R a) (disk w) = (Inr u, t1) \<longrightarrow>
        main_prompts L a (print Step10 (print STEP_TITLE (print HEADER (w\<lparr>disk := t1\<rparr>))))
           = (Inr (Some dr), w2) \<longrightarrow>
        path_exists t1 (source_dir (main_config R a)) \<and> is_dir t1 (source_dir (main_config R a)) \<longrightarrow>
        process_files L (gather_files t1 (source_dir (main_config R a))) (main_config R a) dr t1
           = (Inl er, t3) \<longrightarrow>
        main L R a w = (Inl er, w2\<lparr>disk := t3\<rparr>)
        \<and> (\<forall>b. (stat t3 (report_path (main_config R a)) = Some (KFile b))
              = (stat (disk w) (report_path (main_config R a)) = Some (KFile b))))"
  apply (intro conjI allI impI)
    apply (erule (1) process_files_read_failure)
   apply (erule (3) main_processing_failure[THEN conjunct1])
  apply (erule (3) main_processing_failure[THEN conjunct2, rule_format])
  done

section \<open>The sample run, evaluated\<close>

lemmas codec_eval = excerpt_decode_def excerpt_encode_def continuation_def cons_result_def
  utf8_encode_char_def

lemmas json_eval = json_quote_def json_escape_def json_newline_def decimal.simps hexdigit_def
  skip_ws_def unescape_def hexval_def is_digit_def parse_int_def json_parse_def

lemma normalise_space_e: "normalise_text python_excerpt [0x3000, 0x65] = [0x20, 0x65]"
  by (simp add: normalise_text_filter ucd_eval)

lemma normalise_e: "normalise_text python_excerpt [0x65] = [0x65]"
  by (simp add: normalise_text_filter ucd_eval)

lemma sample_dry_run:
  "process_files python_excerpt sample_files sample_cfg True sample_tree
     = (Inr sample_report, sample_tree)"
  by (simp add: process_files_def process_file_def read_text_def sample_files_def
      sample_cfg_def sample_tree_def sample_report_def codec_eval relative_to_def
      path_str_def is_root_def ascii_def Let_def normalise_space_e normalise_e)

lemma sample_report_dumps:
  "json_dumps python_excerpt (payload sample_report) = sample_report_text"
  by (simp add: payload_def asdict_def sample_report_def sample_report_text_def ascii_def
      json_eval)

lemma sample_report_encode:
  "codec_encode python_excerpt ''utf-8'' sample_report_text = Inr sample_report_text"
  by (simp add: sample_report_text_def codec_eval)

lemma sample_report_decode:
  "codec_decode python_excerpt ''utf-8'' sample_report_text = Inr sample_report_text"
  by (simp add: sample_report_text_def codec_eval)

lemma sample_report_loads:
  "json_loads python_excerpt sample_report_text = Some (payload sample_report)"
  by (simp add: payload_def asdict_def sample_report_def sample_report_text_def ascii_def
      json_eval)

lemma sample_write_report_ok:
  "fst (write_report python_excerpt sample_report sample_cfg sample_tree) = Inr ()"
proof -
  have w: "write_text python_excerpt sample_tree (report_path sample_cfg) sample_report_text
      (encoding sample_cfg) = (Inr (), Dir [(ascii ''in'',
           Dir [(ascii ''a.txt'', File [0xE3, 0x80, 0x80, 0x65]),
                (ascii ''notes.md'', File [0x65]),
                (ascii ''sub'', Dir [(ascii ''b.txt'', File [0x65])])]),
          (ascii ''out'', Dir [(ascii ''report.json'', File sample_report_text)])])"
    unfolding write_text_def
    by (simp add: sample_report_encode sample_cfg_def sample_tree_def ascii_def
        del: excerpt_fields)
  show ?thesis
    unfolding write_report_def sample_report_dumps w by simp
qed

theorem file_report_entries_witness:
  "process_files python_excerpt sample_files sample_cfg True sample_tree
     = (Inr sample_report, sample_tree)
   \<and> length (files sample_report) = 2
   \<and> (\<exists>original.
         read_text python_excerpt sample_tree (sample_files ! 0) ''utf-8'' = Inr original
       \<and> changed (files sample_report ! 0) = (normalise_text python_excerpt original \<noteq> original)
       \<and> characters_before (files sample_report ! 0) = length original
       \<and> characters_after (files sample_report ! 0)
            = length (normalise_text python_excerpt original))
   \<and> (\<exists>t'' txt doc ents.
         write_report python_excerpt sample_report sample_cfg sample_tree = (Inr (), t'')
       \<and> read_text python_excerpt t'' (report_path sample_cfg) ''utf-8'' = Inr txt
       \<and> json_loads python_excerpt txt = Some doc
       \<and> json_field doc (ascii ''files'') = Some (JArr ents)
       \<and> length ents = 2
       \<and> json_field (ents ! 0) (ascii ''characters_before'') = Some (JInt 2))"
proof -
  note run = sample_dry_run
  note all = file_report_entries[OF run]
  have enc: "encoding sample_cfg = ''utf-8''" by (simp add: sample_cfg_def)
  have n: "length sample_files = 2" by (simp add: sample_files_def)
  from all have len: "length (files sample_report) = 2" using n by simp
  from all have "\<forall>i<length sample_files. \<exists>original.
         read_text python_excerpt
           (snd (process_files python_excerpt (take i sample_files) sample_cfg True sample_tree))
           (sample_files ! i) (encoding sample_cfg) = Inr original
       \<and> changed (files sample_report ! i) = (normalise_text python_excerpt original \<noteq> original)
       \<and> characters_before (files sample_report ! i) = length original
       \<and> characters_after (files sample_report ! i)
            = length (normalise_text python_excerpt original)
       \<and> (normalise_text python_excerpt original = original \<longrightarrow>
            \<not> changed (files sample_report ! i)
            \<and> characters_before (files sample_report ! i)
                = characters_after (files sample_report ! i))"
    by (rule conjunct2[THEN conjunct1])
  then have first: "\<exists>original.
         read_text python_excerpt sample_tree (sample_files ! 0) ''utf-8'' = Inr original
       \<and> changed (files sample_report ! 0) = (normalise_text python_excerpt original \<noteq> original)
       \<and> characters_before (files sample_report ! 0) = length original
       \<and> characters_after (files sample_report ! 0)
            = length (normalise_text python_excerpt original)"
    using n by (fastforce simp: enc process_files_def)
  obtain t'' where w: "write_report python_excerpt sample_report sample_cfg sample_tree
      = (Inr (), t'')"
    using sample_write_report_ok
    by (cases "write_report python_excerpt sample_report sample_cfg sample_tree") auto
  from all[THEN conjunct2, THEN conjunct2, THEN conjunct2, rule_format, OF w]
  obtain b where b: "codec_encode python_excerpt (encoding sample_cfg)
        (json_dumps python_excerpt (payload sample_report)) = Inr b"
    and rest: "codec_decode python_excerpt (encoding sample_cfg) b
        = Inr (json_dumps python_excerpt (payload sample_report)) \<longrightarrow>
      json_loads python_excerpt (json_dumps python_excerpt (payload sample_report))
        = Some (payload sample_report) \<longrightarrow>
      (\<exists>txt doc ents.
          read_text python_excerpt t'' (report_path sample_cfg) (encoding sample_cfg) = Inr txt
        \<and> json_loads python_excerpt txt = Some doc
        \<and> json_field doc (ascii ''files'') = Some (JArr ents)
        \<and> length ents = length sample_files
        \<and> (\<forall>i<length sample_files.
              json_field (ents ! i) (ascii ''changed'')
                = Some (JBool (changed (files sample_report ! i)))
            \<and> json_field (ents ! i) (ascii ''characters_before'')
                = Some (JInt (int (characters_before (files sample_report ! i))))
            \<and> json_field (ents ! i) (ascii ''characters_after'')
                = Some (JInt (int (characters_after (files sample_report ! i))))))"
    by blast
  from b have bb: "b = sample_report_text"
    by (simp only: enc sample_report_dumps sample_report_encode sum.inject)
  have d: "codec_decode python_excerpt (encoding sample_cfg) b
        = Inr (json_dumps python_excerpt (payload sample_report))"
    by (simp only: bb enc sample_report_dumps sample_report_decode)
  have j: "json_loads python_excerpt (json_dumps python_excerpt (payload sample_report))
        = Some (payload sample_report)"
    by (simp only: sample_report_dumps sample_report_loads)
  from rest[rule_format, OF d j] obtain tx doc ents
    where "read_text python_excerpt t'' (report_path sample_cfg) (encoding sample_cfg) = Inr tx"
      "json_loads python_excerpt tx = Some doc"
      "json_field doc (ascii ''files'') = Some (JArr ents)"
      "length ents = length sample_files"
      "json_field (ents ! 0) (ascii ''characters_before'')
                = Some (JInt (int (characters_before (files sample_report ! 0))))"
    using n by auto
  moreover have "characters_before (files sample_report ! 0) = 2"
    by (simp add: sample_report_def)
  ultimately have "\<exists>t'' txt doc ents.
         write_report python_excerpt sample_report sample_cfg sample_tree = (Inr (), t'')
       \<and> read_text python_excerpt t'' (report_path sample_cfg) ''utf-8'' = Inr txt
       \<and> json_loads python_excerpt txt = Some doc
       \<and> json_field doc (ascii ''files'') = Some (JArr ents)
       \<and> length ents = 2
       \<and> json_field (ents ! 0) (ascii ''characters_before'') = Some (JInt 2)"
    using w n enc by auto
  with run len first show ?thesis by blast
qed

lemma inplace_run:
  "process_files python_excerpt [[ascii ''in'', ascii ''a.txt'']] inplace_cfg False sample_tree
     = (Inr \<lparr>report_source_dir = ascii ''in'', report_output_dir = ascii ''in'',
              report_dry_run = False,
              files = [\<lparr>path = ascii ''a.txt'', changed = True,
                        characters_before = 2, characters_after = 2\<rparr>]\<rparr>,
        Dir [(ascii ''in'',
              Dir [(ascii ''a.txt'', File [0x20, 0x65]),
                   (ascii ''notes.md'', File [0x65]),
                   (ascii ''sub'', Dir [(ascii ''b.txt'', File [0x65])])]),
             (ascii ''out'', Dir [])])"
  by (simp add: process_files_def process_file_def read_text_def write_text_def parent_def
      inplace_cfg_def sample_tree_def codec_eval relative_to_def
      path_str_def is_root_def ascii_def Let_def normalise_space_e)

text \<open>
  Claim C5, as stated, says that input files are never modified.  With the output
  directory equal to the source directory (\<open>--source in --output in\<close>) the output path
  of \<open>in/a.txt\<close> is \<open>in/a.txt\<close>: the run succeeds and the input file, which held
  U+3000 and the letter e, holds a space and the letter e.
\<close>

theorem input_file_overwritten:
  "read_bytes sample_tree [ascii ''in'', ascii ''a.txt''] = Inr [0xE3, 0x80, 0x80, 0x65]
   \<and> fst (process_files python_excerpt [[ascii ''in'', ascii ''a.txt'']] inplace_cfg False
           sample_tree)
       = Inr \<lparr>report_source_dir = ascii ''in'', report_output_dir = ascii ''in'',
              report_dry_run = False,
              files = [\<lparr>path = ascii ''a.txt'', changed = True,
                        characters_before = 2, characters_after = 2\<rparr>]\<rparr>
   \<and> read_bytes
         (snd (process_files python_excerpt [[ascii ''in'', ascii ''a.txt'']] inplace_cfg False
                 sample_tree))
         [ascii ''in'', ascii ''a.txt''] = Inr [0x20, 0x65]"
  unfolding inplace_run by (simp add: sample_tree_def ascii_def)

lemma sample_real_run:
  "process_files python_excerpt sample_files sample_cfg False sample_tree
     = (Inr (sample_report\<lparr>report_dry_run := False\<rparr>),
        Dir [(ascii ''in'',
              Dir [(ascii ''a.txt'', File [0xE3, 0x80, 0x80, 0x65]),
                   (ascii ''notes.md'', File [0x65]),
                   (ascii ''sub'', Dir [(ascii ''b.txt'', File [0x65])])]),
             (ascii ''out'',
              Dir [(ascii ''a.txt'', File [0x20, 0x65]),
                   (ascii ''sub'', Dir [(ascii ''b.txt'', File [0x65])])])])"
  by (simp add: process_files_def process_file_def read_text_def write_text_def parent_def
      sample_files_def sample_cfg_def sample_tree_def sample_report_def codec_eval
      relative_to_def path_str_def is_root_def ascii_def Let_def normalise_space_e normalise_e)

theorem process_files_writes_witness:
  "process_files python_excerpt sample_files sample_cfg True sample_tree
     = (Inr sample_report, sample_tree)
   \<and> fst (process_files python_excerpt sample_files sample_cfg False sample_tree)
       = Inr (sample_report\<lparr>report_dry_run := False\<rparr>)
   \<and> output_path_of sample_cfg ` set sample_files \<inter> set sample_files = {}
   \<and> stat (snd (process_files python_excerpt sample_files sample_cfg False sample_tree))
         [ascii ''out'', ascii ''sub'', ascii ''b.txt''] = Some (KFile [0x65])
   \<and> stat (snd (process_files python_excerpt sample_files sample_cfg False sample_tree))
         [ascii ''out'', ascii ''sub''] = Some KDir
   \<and> stat (snd (process_files python_excerpt sample_files sample_cfg False sample_tree))
         [ascii ''in'', ascii ''a.txt''] = Some (KFile [0xE3, 0x80, 0x80, 0x65])
   \<and> (\<exists>c b.
         read_text python_excerpt sample_tree [ascii ''in'', ascii ''a.txt''] ''utf-8'' = Inr c
       \<and> codec_encode python_excerpt ''utf-8'' (normalise_text python_excerpt c) = Inr b
       \<and> stat (snd (process_files python_excerpt [[ascii ''in'', ascii ''a.txt'']] inplace_cfg
                      False sample_tree))
             [ascii ''in'', ascii ''a.txt''] = Some (KFile b))"
proof -
  note run = sample_real_run
  note all = process_files_writes[OF run]
  note inp = process_files_writes[OF inplace_run]
  have i0: "(0::nat) < length [[ascii ''in'', ascii ''a.txt'']]" by simp
  have last0: "[[ascii ''in'', ascii ''a.txt'']] ! 0
      \<notin> set (drop (Suc 0) [[ascii ''in'', ascii ''a.txt'']])" by simp
  have first0: "[[ascii ''in'', ascii ''a.txt'']] ! 0
      \<notin> output_path_of inplace_cfg ` set (take 0 [[ascii ''in'', ascii ''a.txt'']])" by simp
  from inp[THEN conjunct2, THEN conjunct2, THEN conjunct2, THEN conjunct2, rule_format,
      OF _ refl i0 last0]
  obtain c0 b0
    where c0: "[[ascii ''in'', ascii ''a.txt'']] ! 0
          \<notin> output_path_of inplace_cfg ` set (take 0 [[ascii ''in'', ascii ''a.txt'']]) \<longrightarrow>
        read_text python_excerpt sample_tree ([[ascii ''in'', ascii ''a.txt'']] ! 0)
          (encoding inplace_cfg) = Inr c0"
      and b0: "codec_encode python_excerpt (encoding inplace_cfg)
          (normalise_text python_excerpt c0) = Inr b0"
      and s0: "stat (Dir [(ascii ''in'',
              Dir [(ascii ''a.txt'', File [0x20, 0x65]),
                   (ascii ''notes.md'', File [0x65]),
                   (ascii ''sub'', Dir [(ascii ''b.txt'', File [0x65])])]),
             (ascii ''out'', Dir [])])
          (output_path_of inplace_cfg ([[ascii ''in'', ascii ''a.txt'']] ! 0)) = Some (KFile b0)"
    by blast
  have enc0: "encoding inplace_cfg = ''utf-8''" by (simp add: inplace_cfg_def)
  have out0: "output_path_of inplace_cfg ([[ascii ''in'', ascii ''a.txt'']] ! 0)
      = [ascii ''in'', ascii ''a.txt'']"
    by (simp add: output_path_of_def inplace_cfg_def)
  from c0[rule_format, OF first0]
  have "read_text python_excerpt sample_tree [ascii ''in'', ascii ''a.txt''] ''utf-8'' = Inr c0"
    unfolding enc0 by simp
  moreover from b0
  have "codec_encode python_excerpt ''utf-8'' (normalise_text python_excerpt c0) = Inr b0"
    unfolding enc0 .
  moreover from s0
  have "stat (snd (process_files python_excerpt [[ascii ''in'', ascii ''a.txt'']] inplace_cfg
                      False sample_tree))
             [ascii ''in'', ascii ''a.txt''] = Some (KFile b0)"
    unfolding inplace_run out0 by simp
  ultimately have inplace: "\<exists>c b.
         read_text python_excerpt sample_tree [ascii ''in'', ascii ''a.txt''] ''utf-8'' = Inr c
       \<and> codec_encode python_excerpt ''utf-8'' (normalise_text python_excerpt c) = Inr b
       \<and> stat (snd (process_files python_excerpt [[ascii ''in'', ascii ''a.txt'']] inplace_cfg
                      False sample_tree))
             [ascii ''in'', ascii ''a.txt''] = Some (KFile b)"
    by blast
  have nc: "output_path_of sample_cfg ` set sample_files \<inter> set sample_files = {}"
    by (simp add: output_path_of_def sample_cfg_def sample_files_def ascii_def)
  have b: "[ascii ''in'', ascii ''sub'', ascii ''b.txt''] \<in> set sample_files"
    by (simp add: sample_files_def)
  from all[THEN conjunct2, THEN conjunct2, THEN conjunct2, THEN conjunct1, rule_format,
      OF _ refl nc b]
  obtain c bs where c: "read_text python_excerpt sample_tree
        [ascii ''in'', ascii ''sub'', ascii ''b.txt''] (encoding sample_cfg) = Inr c"
    and bs: "codec_encode python_excerpt (encoding sample_cfg) (normalise_text python_excerpt c)
        = Inr bs"
    and out: "stat (Dir [(ascii ''in'',
              Dir [(ascii ''a.txt'', File [0xE3, 0x80, 0x80, 0x65]),
                   (ascii ''notes.md'', File [0x65]),
                   (ascii ''sub'', Dir [(ascii ''b.txt'', File [0x65])])]),
             (ascii ''out'',
              Dir [(ascii ''a.txt'', File [0x20, 0x65]),
                   (ascii ''sub'', Dir [(ascii ''b.txt'', File [0x65])])])])
          (output_path_of sample_cfg [ascii ''in'', ascii ''sub'', ascii ''b.txt'']) = Some (KFile bs)"
    by auto
  have "stat (snd (process_files python_excerpt sample_files sample_cfg False sample_tree))
         [ascii ''out'', ascii ''sub'', ascii ''b.txt''] = Some (KFile [0x65])"
    unfolding run by (simp add: ascii_def)
  moreover have "stat (snd (process_files python_excerpt sample_files sample_cfg False sample_tree))
         [ascii ''out'', ascii ''sub''] = Some KDir"
    unfolding run by (simp add: ascii_def)
  moreover have "stat (snd (process_files python_excerpt sample_files sample_cfg False sample_tree))
         [ascii ''in'', ascii ''a.txt''] = Some (KFile [0xE3, 0x80, 0x80, 0x65])"
    unfolding run by (simp add: ascii_def)
  moreover have "fst (process_files python_excerpt sample_files sample_cfg False sample_tree)
       = Inr (sample_report\<lparr>report_dry_run := False\<rparr>)"
    unfolding run by simp
  ultimately show ?thesis
    using sample_dry_run nc out inplace by blast
qed

lemma discovery_tree_wf: "wf_node discovery_tree"
  by (simp add: discovery_tree_def ascii_def)

lemma discovery_tree_files:
  "gather_files discovery_tree [ascii ''in''] =
     [[ascii ''in'', ascii ''a'', ascii ''x.txt''],
      [ascii ''in'', ascii ''a.d'', ascii ''x.txt''],
      [ascii ''in'', ascii ''a.txt''],
      [ascii ''in'', ascii ''d.txt'', ascii ''c.txt''],
      [ascii ''in'', ascii ''sub'', ascii ''b.txt'']]"
  by (simp add: gather_files_def rglob_def fnmatch_txt_def suffix_to_prefix is_file_def
      discovery_tree_def ascii_def)

theorem gather_files_spec_witness:
  "wf_node discovery_tree
   \<and> gather_files discovery_tree [ascii ''in''] =
     [[ascii ''in'', ascii ''a'', ascii ''x.txt''],
      [ascii ''in'', ascii ''a.d'', ascii ''x.txt''],
      [ascii ''in'', ascii ''a.txt''],
      [ascii ''in'', ascii ''d.txt'', ascii ''c.txt''],
      [ascii ''in'', ascii ''sub'', ascii ''b.txt'']]
   \<and> sorted (gather_files discovery_tree [ascii ''in''])
   \<and> distinct (gather_files discovery_tree [ascii ''in''])
   \<and> is_file discovery_tree [ascii ''in'', ascii ''a.txt'']
   \<and> is_dir discovery_tree [ascii ''in'', ascii ''d.txt'']
   \<and> [ascii ''in'', ascii ''d.txt''] \<notin> set (gather_files discovery_tree [ascii ''in''])"
proof -
  note all = gather_files_spec[OF discovery_tree_wf, of "[ascii ''in'']"]
  have d: "is_dir discovery_tree [ascii ''in'', ascii ''d.txt'']"
    by (simp add: is_dir_def discovery_tree_def ascii_def)
  have f: "is_file discovery_tree [ascii ''in'', ascii ''a.txt'']"
    by (simp add: is_file_def discovery_tree_def ascii_def)
  from all d have "[ascii ''in'', ascii ''d.txt''] \<notin> set (gather_files discovery_tree [ascii ''in''])"
    by blast
  with all d f discovery_tree_wf discovery_tree_files show ?thesis
    by blast
qed

lemma discovery_tree_strings:
  "map path_str (gather_files discovery_tree [ascii ''in'']) =
     [ascii ''in/a/x.txt'', ascii ''in/a.d/x.txt'', ascii ''in/a.txt'',
      ascii ''in/d.txt/c.txt'', ascii ''in/sub/b.txt'']"
  unfolding discovery_tree_files by (simp add: path_str_def is_root_def ascii_def)

text \<open>
  Claim C6, as stated, says that the result is sorted lexicographically by full path.
  Below \<open>in\<close>, the file \<open>a/x.txt\<close> comes before \<open>a.d/x.txt\<close> in the result, since
  the part \<open>a\<close> is a proper prefix of the part \<open>a.d\<close>; as strings, \<open>in/a.d/x.txt\<close>
  is below \<open>in/a/x.txt\<close>, since the full stop is below the slash.
\<close>

theorem gather_files_not_sorted_as_strings:
  "map path_str (gather_files discovery_tree [ascii ''in'']) =
     [ascii ''in/a/x.txt'', ascii ''in/a.d/x.txt'', ascii ''in/a.txt'',
      ascii ''in/d.txt/c.txt'', ascii ''in/sub/b.txt'']
   \<and> ascii ''in/a.d/x.txt'' < ascii ''in/a/x.txt''
   \<and> \<not> sorted (map path_str (gather_files discovery_tree [ascii ''in'']))"
proof -
  have lt: "ascii ''in/a.d/x.txt'' < ascii ''in/a/x.txt''"
    by (simp add: ascii_def)
  then have "\<not> ascii ''in/a/x.txt'' \<le> ascii ''in/a.d/x.txt''"
    by simp
  then have "\<not> sorted (map path_str (gather_files discovery_tree [ascii ''in'']))"
    unfolding discovery_tree_strings by simp
  with lt discovery_tree_strings show ?thesis by simp
qed

lemma path_str_examples:
  "path_str [ascii ''/'', ascii ''root'', ascii ''x''] = ascii ''/root/x''"
  "path_str [ascii ''in'', ascii ''a.txt''] = ascii ''in/a.txt''"
  "path_str [ascii ''/''] = ascii ''/''"
  "path_str [] = ascii ''.''"
  "parent [ascii ''/''] = [ascii ''/'']"
  "parent [ascii ''/'', ascii ''root''] = [ascii ''/'']"
  "parent [ascii ''in''] = []"
  by (simp_all add: path_str_def parent_def is_root_def ascii_def)

lemma sample_main_config: "main_config [] sample_args = sample_cfg"
  by (simp add: main_config_def DEFAULT_CONFIG_def sample_args_def sample_cfg_def)

lemma missing_main_config:
  "main_config [] missing_args = sample_cfg\<lparr>source_dir := [ascii ''missing'']\<rparr>"
  "main_config [] (missing_args\<lparr>interactive := True\<rparr>)
     = sample_cfg\<lparr>source_dir := [ascii ''missing'']\<rparr>"
  by (simp_all add: main_config_def DEFAULT_CONFIG_def missing_args_def sample_args_def sample_cfg_def)

lemma empty_main_config:
  "main_config [] empty_args = sample_cfg\<lparr>source_dir := [ascii ''out'']\<rparr>"
  by (simp add: main_config_def DEFAULT_CONFIG_def empty_args_def sample_args_def sample_cfg_def)

lemma interactive_main_config:
  "main_config [] (sample_args\<lparr>interactive := True\<rparr>) = sample_cfg"
  by (simp add: main_config_def DEFAULT_CONFIG_def sample_args_def sample_cfg_def)

lemma sample_ensure_directories:
  "ensure_directories (sample_cfg\<lparr>source_dir := s\<rparr>) sample_tree = (Inr (), sample_tree)"
  by (simp add: ensure_directories_def sample_cfg_def sample_tree_def parent_def ascii_def)

lemma source_only_ensure_directories:
  "ensure_directories sample_cfg source_only_tree
     = (Inr (), Dir [(ascii ''in'', Dir [(ascii ''a.txt'', File [0x65])]),
                     (ascii ''out'', Dir [])])"
  by (simp add: ensure_directories_def sample_cfg_def source_only_tree_def parent_def ascii_def)


lemma answer_n_declines:
  "str_lower python_excerpt (str_strip (ascii ''n'')) \<noteq> []"
  "str_lower python_excerpt (str_strip (ascii ''n'')) \<notin> {ascii ''y'', ascii ''yes''}"
  by (simp_all add: str_strip_def whitespace_def ascii_lower_def ascii_def)

text \<open>
  Claim C7, as stated, gives exit status 1 whenever the source directory does not exist.
  With \<open>--interactive\<close> and the answer \<open>n\<close> to the first prompt the run is cancelled
  before the source directory is looked at: \<open>main\<close> returns 0 although \<open>missing\<close> does
  not exist.
\<close>

theorem missing_source_cancelled:
  "\<not> path_exists (disk answering_no)
        (source_dir (main_config [] (missing_args\<lparr>interactive := True\<rparr>)))
   \<and> fst (main python_excerpt [] (missing_args\<lparr>interactive := True\<rparr>) answering_no) = Inr 0"
proof -
  have i: "interactive (missing_args\<lparr>interactive := True\<rparr>)" by simp
  have e: "ensure_directories (main_config [] (missing_args\<lparr>interactive := True\<rparr>))
      (disk answering_no) = (Inr (), sample_tree)"
    by (simp add: missing_main_config sample_ensure_directories answering_no_def)
  have s: "stdin answering_no = ascii ''n'' # []" by (simp add: answering_no_def)
  from main_cancelled[OF i e s answer_n_declines]
  have "fst (main python_excerpt [] (missing_args\<lparr>interactive := True\<rparr>) answering_no) = Inr 0"
    by simp
  moreover have "\<not> path_exists (disk answering_no)
        (source_dir (main_config [] (missing_args\<lparr>interactive := True\<rparr>)))"
    by (simp add: missing_main_config answering_no_def path_exists_def sample_tree_def ascii_def)
  ultimately show ?thesis by simp
qed

theorem main_without_source_or_files_witness:
  "\<not> path_exists sample_tree [ascii ''missing'']
   \<and> main python_excerpt [] missing_args sample_world
       = (Inr 1, \<lparr>disk = sample_tree, stdin = [],
                  stdout = [HEADER, STEP_TITLE, Step10, InfoNonInteractive,
                            ErrorSourceDir [ascii ''missing''], HintPrepareSource]\<rparr>)
   \<and> is_dir sample_tree [ascii ''out'']
   \<and> gather_files sample_tree [ascii ''out''] = []
   \<and> main python_excerpt [] empty_args sample_world
       = (Inr 0, \<lparr>disk = sample_tree, stdin = [],
                  stdout = [HEADER, STEP_TITLE, Step10, InfoNonInteractive,
                            WarnNoFiles [ascii ''out'']]\<rparr>)
   \<and> main python_excerpt [] (missing_args\<lparr>interactive := True\<rparr>) sample_world
       = (Inl EOFError, \<lparr>disk = sample_tree, stdin = [],
                  stdout = [HEADER, STEP_TITLE, Step10, Prompt AskRunNow True]\<rparr>)"
proof -
  let ?w1 = "print Step10 (print STEP_TITLE (print HEADER (sample_world\<lparr>disk := sample_tree\<rparr>)))"
  have e3: "ensure_directories (main_config [] (missing_args\<lparr>interactive := True\<rparr>))
      (disk sample_world) = (Inr (), sample_tree)"
    by (simp add: missing_main_config sample_ensure_directories sample_world_def)
  have i3: "interactive (missing_args\<lparr>interactive := True\<rparr>)" by simp
  have s3: "stdin sample_world = []" by (simp add: sample_world_def)
  from main_without_source_or_files[OF e3, THEN conjunct2, THEN conjunct2, THEN conjunct2,
      THEN conjunct1, rule_format, OF i3 s3, of python_excerpt]
  have r3: "main python_excerpt [] (missing_args\<lparr>interactive := True\<rparr>) sample_world
       = (Inl EOFError, \<lparr>disk = sample_tree, stdin = [],
                  stdout = [HEADER, STEP_TITLE, Step10, Prompt AskRunNow True]\<rparr>)"
    by (simp add: print_def sample_world_def)
  have e1: "ensure_directories (main_config [] missing_args) (disk sample_world)
      = (Inr (), sample_tree)"
    by (simp add: missing_main_config sample_ensure_directories sample_world_def)
  have p1: "main_prompts python_excerpt missing_args ?w1
      = (Inr (Some False), print InfoNonInteractive ?w1)"
    using main_prompts_noninteractive[of missing_args python_excerpt ?w1]
    by (simp add: missing_args_def sample_args_def)
  have n1: "\<not> path_exists sample_tree [ascii ''missing'']"
    by (simp add: path_exists_def sample_tree_def ascii_def)
  then have c1: "\<not> path_exists sample_tree (source_dir (main_config [] missing_args))
      \<or> \<not> is_dir sample_tree (source_dir (main_config [] missing_args))"
    by (simp add: missing_main_config)
  from main_without_source_or_files[OF e1, THEN conjunct1, rule_format, OF p1,
      THEN conjunct1, rule_format, OF c1]
  have r1: "main python_excerpt [] missing_args sample_world
       = (Inr 1, \<lparr>disk = sample_tree, stdin = [],
                  stdout = [HEADER, STEP_TITLE, Step10, InfoNonInteractive,
                            ErrorSourceDir [ascii ''missing''], HintPrepareSource]\<rparr>)"
    by (simp add: missing_main_config print_def sample_world_def)
  have e2: "ensure_directories (main_config [] empty_args) (disk sample_world)
      = (Inr (), sample_tree)"
    by (simp add: empty_main_config sample_ensure_directories sample_world_def)
  have p2: "main_prompts python_excerpt empty_args ?w1
      = (Inr (Some False), print InfoNonInteractive ?w1)"
    using main_prompts_noninteractive[of empty_args python_excerpt ?w1]
    by (simp add: empty_args_def sample_args_def)
  have d2: "is_dir sample_tree [ascii ''out'']"
    by (simp add: is_dir_def sample_tree_def ascii_def)
  have g2: "gather_files sample_tree [ascii ''out''] = []"
    by (simp add: gather_files_def rglob_def sample_tree_def ascii_def)
  have c2: "path_exists sample_tree (source_dir (main_config [] empty_args))
      \<and> is_dir sample_tree (source_dir (main_config [] empty_args))
      \<and> gather_files sample_tree (source_dir (main_config [] empty_args)) = []"
    using d2 g2 by (simp add: empty_main_config path_exists_stat is_dir_stat)
  from main_without_source_or_files[OF e2, THEN conjunct1, rule_format, OF p2,
      THEN conjunct2, THEN conjunct1, rule_format, OF c2]
  have r2: "main python_excerpt [] empty_args sample_world
       = (Inr 0, \<lparr>disk = sample_tree, stdin = [],
                  stdout = [HEADER, STEP_TITLE, Step10, InfoNonInteractive,
                            WarnNoFiles [ascii ''out'']]\<rparr>)"
    by (simp add: empty_main_config print_def sample_world_def)
  from n1 r1 d2 g2 r2 r3 show ?thesis by simp
qed

text \<open>
  Claim C8, as stated, says that the cancelled run has no side effects.  The output
  directory is created before the prompt: in a file system with \<open>in\<close> only, the
  cancelled run of \<open>--interactive --source in --output out\<close> returns 0 and leaves the new
  directory \<open>out\<close> behind.
\<close>

theorem cancelled_run_creates_output_dir:
  "\<not> path_exists source_only_tree [ascii ''out'']
   \<and> fst (main python_excerpt [] (sample_args\<lparr>interactive := True\<rparr>)
           \<lparr>disk = source_only_tree, stdin = [ascii ''n''], stdout = []\<rparr>) = Inr 0
   \<and> is_dir (disk (snd (main python_excerpt [] (sample_args\<lparr>interactive := True\<rparr>)
           \<lparr>disk = source_only_tree, stdin = [ascii ''n''], stdout = []\<rparr>))) [ascii ''out'']"
proof -
  let ?a = "sample_args\<lparr>interactive := True\<rparr>"
  let ?w = "\<lparr>disk = source_only_tree, stdin = [ascii ''n''], stdout = []\<rparr>"
  have i: "interactive ?a" by simp
  have e: "ensure_directories (main_config [] ?a) (disk ?w)
      = (Inr (), Dir [(ascii ''in'', Dir [(ascii ''a.txt'', File [0x65])]),
                     (ascii ''out'', Dir [])])"
    by (simp add: interactive_main_config source_only_ensure_directories)
  have s: "stdin ?w = ascii ''n'' # []" by simp
  note m = main_cancelled[OF i e s answer_n_declines]
  have "\<not> path_exists source_only_tree [ascii ''out'']"
    by (simp add: path_exists_def source_only_tree_def ascii_def)
  moreover have "is_dir (Dir [(ascii ''in'', Dir [(ascii ''a.txt'', File [0x65])]),
                     (ascii ''out'', Dir [])]) [ascii ''out'']"
    by (simp add: is_dir_def ascii_def)
  ultimately show ?thesis
    unfolding m by simp
qed

theorem main_cancelled_run_witness:
  "interactive (sample_args\<lparr>interactive := True\<rparr>)
   \<and> main python_excerpt [] (sample_args\<lparr>interactive := True\<rparr>) answering_no
       = (Inr 0, \<lparr>disk = sample_tree, stdin = [],
                  stdout = [HEADER, STEP_TITLE, Step10, Prompt AskRunNow True, Cancelled]\<rparr>)
   \<and> stat sample_tree (report_path (main_config [] (sample_args\<lparr>interactive := True\<rparr>)))
       = stat (disk answering_no) (report_path (main_config [] (sample_args\<lparr>interactive := True\<rparr>)))"
proof -
  let ?a = "sample_args\<lparr>interactive := True\<rparr>"
  have i: "interactive ?a" by simp
  have e: "ensure_directories (main_config [] ?a) (disk answering_no) = (Inr (), sample_tree)"
    using sample_ensure_directories[of "[ascii ''in'']"]
    by (simp add: interactive_main_config answering_no_def sample_cfg_def)
  have s: "stdin answering_no = ascii ''n'' # []" by (simp add: answering_no_def)
  note all = main_cancelled_run[OF i e s answer_n_declines]
  from all[THEN conjunct1] all[THEN conjunct2, THEN conjunct2, THEN conjunct1] i
  show ?thesis by (simp add: answering_no_def)
qed




lemma broken_ensure_directories:
  "ensure_directories sample_cfg broken_tree = (Inr (), broken_tree)"
  by (simp add: ensure_directories_def sample_cfg_def broken_tree_def parent_def ascii_def)

lemma broken_gather_files:
  "gather_files broken_tree [ascii ''in''] =
     [[ascii ''in'', ascii ''a.txt''], [ascii ''in'', ascii ''b.txt''],
      [ascii ''in'', ascii ''c.txt'']]"
  by (simp add: gather_files_def rglob_def fnmatch_txt_def suffix_to_prefix is_file_def
      broken_tree_def ascii_def)

lemma broken_first_file:
  "process_files python_excerpt [[ascii ''in'', ascii ''a.txt'']] sample_cfg False broken_tree
     = (Inr \<lparr>report_source_dir = ascii ''in'', report_output_dir = ascii ''out'',
              report_dry_run = False,
              files = [\<lparr>path = ascii ''a.txt'', changed = False,
                        characters_before = 1, characters_after = 1\<rparr>]\<rparr>,
        Dir [(ascii ''in'',
              Dir [(ascii ''a.txt'', File [0x65]),
                   (ascii ''b.txt'', File [0xFF]),
                   (ascii ''c.txt'', File [0x65])]),
             (ascii ''out'',
              Dir [(ascii ''report.json'', File [0x7B, 0x7D]),
                   (ascii ''a.txt'', File [0x65])])])"
  by (simp add: process_files_def process_file_def read_text_def write_text_def parent_def
      sample_cfg_def broken_tree_def codec_eval relative_to_def
      path_str_def is_root_def ascii_def Let_def normalise_e)

lemma broken_second_file:
  "read_text python_excerpt
     (Dir [(ascii ''in'',
              Dir [(ascii ''a.txt'', File [0x65]),
                   (ascii ''b.txt'', File [0xFF]),
                   (ascii ''c.txt'', File [0x65])]),
             (ascii ''out'',
              Dir [(ascii ''report.json'', File [0x7B, 0x7D]),
                   (ascii ''a.txt'', File [0x65])])])
     [ascii ''in'', ascii ''b.txt''] (encoding sample_cfg) = Inl UnicodeDecodeError"
  by (simp add: read_text_def sample_cfg_def codec_eval ascii_def)

theorem read_failure_aborts_run_witness:
  "process_files python_excerpt
       [[ascii ''in'', ascii ''a.txt''], [ascii ''in'', ascii ''b.txt''],
        [ascii ''in'', ascii ''c.txt'']] sample_cfg False broken_tree
     = (Inl UnicodeDecodeError,
        Dir [(ascii ''in'',
              Dir [(ascii ''a.txt'', File [0x65]),
                   (ascii ''b.txt'', File [0xFF]),
                   (ascii ''c.txt'', File [0x65])]),
             (ascii ''out'',
              Dir [(ascii ''report.json'', File [0x7B, 0x7D]),
                   (ascii ''a.txt'', File [0x65])])])
   \<and> fst (main python_excerpt [] sample_args \<lparr>disk = broken_tree, stdin = [], stdout = []\<rparr>)
       = Inl UnicodeDecodeError
   \<and> stat (disk (snd (main python_excerpt [] sample_args
                          \<lparr>disk = broken_tree, stdin = [], stdout = []\<rparr>)))
         [ascii ''out'', ascii ''c.txt''] = None
   \<and> stat (disk (snd (main python_excerpt [] sample_args
                          \<lparr>disk = broken_tree, stdin = [], stdout = []\<rparr>)))
         [ascii ''out'', ascii ''report.json''] = Some (KFile [0x7B, 0x7D])"
proof -
  let ?after = "Dir [(ascii ''in'',
              Dir [(ascii ''a.txt'', File [0x65]),
                   (ascii ''b.txt'', File [0xFF]),
                   (ascii ''c.txt'', File [0x65])]),
             (ascii ''out'',
              Dir [(ascii ''report.json'', File [0x7B, 0x7D]),
                   (ascii ''a.txt'', File [0x65])])]"
  let ?w = "\<lparr>disk = broken_tree, stdin = [], stdout = []\<rparr>"
  let ?w1 = "print Step10 (print STEP_TITLE (print HEADER (?w\<lparr>disk := broken_tree\<rparr>)))"
  note all = read_failure_aborts_run[of python_excerpt "[[ascii ''in'', ascii ''a.txt'']]"
      sample_cfg False broken_tree "[ascii ''in'', ascii ''b.txt'']" UnicodeDecodeError
      "[[ascii ''in'', ascii ''c.txt'']]" "[]" sample_args ?w]
  from all[THEN conjunct1, rule_format, OF broken_first_file broken_second_file]
  have run: "process_files python_excerpt
       [[ascii ''in'', ascii ''a.txt''], [ascii ''in'', ascii ''b.txt''],
        [ascii ''in'', ascii ''c.txt'']] sample_cfg False broken_tree
     = (Inl UnicodeDecodeError, ?after)"
    by simp
  have e: "ensure_directories (main_config [] sample_args) (disk ?w) = (Inr (), broken_tree)"
    by (simp add: sample_main_config broken_ensure_directories)
  have p: "main_prompts python_excerpt sample_args ?w1
      = (Inr (Some False), print InfoNonInteractive ?w1)"
    using main_prompts_noninteractive[of sample_args python_excerpt ?w1]
    by (simp add: sample_args_def)
  have d: "path_exists broken_tree (source_dir (main_config [] sample_args))
      \<and> is_dir broken_tree (source_dir (main_config [] sample_args))"
    by (simp add: sample_main_config sample_cfg_def path_exists_def is_dir_def broken_tree_def
        ascii_def)
  have src: "source_dir (main_config [] sample_args) = [ascii ''in'']"
    by (simp add: sample_main_config sample_cfg_def)
  have g: "process_files python_excerpt
      (gather_files broken_tree (source_dir (main_config [] sample_args)))
      (main_config [] sample_args) False broken_tree = (Inl UnicodeDecodeError, ?after)"
    using run by (simp add: sample_main_config sample_cfg_def broken_gather_files)
  note m = all[THEN conjunct2, rule_format, OF e p d g]
  have rp: "report_path (main_config [] sample_args) = [ascii ''out'', ascii ''report.json'']"
    by (simp add: sample_main_config sample_cfg_def)
  have "stat ?after [ascii ''out'', ascii ''c.txt''] = None"
    by (simp add: ascii_def)
  moreover have "stat broken_tree [ascii ''out'', ascii ''report.json''] = Some (KFile [0x7B, 0x7D])"
    by (simp add: broken_tree_def ascii_def)
  ultimately show ?thesis
    using run m by (simp add: rp)
qed

end
